theory Spec2Isabelle
  imports Main
begin

section \<open>JavaScript values, promises and rejections\<close>

text \<open>
  The repository is one file, \<^verbatim>\<open>src/block.js\<close>, holding the classes \<^verbatim>\<open>Block\<close> and
  \<^verbatim>\<open>Blockchain\<close>. Every method returns a promise. A method is modelled as a function
  of the state of the \<^verbatim>\<open>Blockchain\<close> object that returns the final state of the promise
  (fulfilled with a value, rejected with a reason, or never settled) together with the
  state of the object when the call and the microtasks it queued have run. One call is
  run to completion before the next starts, which is the single-writer discipline the
  specification asks of callers.

  Blocks are objects, and \<^verbatim>\<open>_addBlock\<close> assigns the fields of the object it is passed. The
  section on blocks as objects in memory models that with a store of objects in which the
  chain array holds references (\<open>addBlock_at\<close>). Both callers in the file pass a
  block they have just constructed; for such a block, one that the chain array does not
  hold already, the store can be left out and the chain taken as the list of the values
  of its blocks (\<open>addBlock\<close>, and lemma \<open>addBlock_at_fresh\<close> for the agreement of the
  two).

  The digest \<^verbatim>\<open>SHA256(...).toString()\<close>, the signature check \<^verbatim>\<open>bitcoinMessage.verify\<close>, the
  payload codec (\<^verbatim>\<open>Buffer.from(JSON.stringify(data)).toString('hex')\<close> and
  \<^verbatim>\<open>JSON.parse(hex2ascii(body))\<close>) and the clock \<^verbatim>\<open>new Date().getTime()\<close> belong to libraries
  and to the platform: they are parameters \<open>sha\<close>, \<open>verify\<close>, \<open>encode\<close>, \<open>decode\<close> and
  \<open>ms\<close> of the functions below.
\<close>

datatype jsnum = Number int | NaN

datatype jsval =
    JUndefined
  | JNull
  | JBool bool
  | JNumber jsnum
  | JString string
  | JArray "jsval list"
  | JObject "(string \<times> jsval) list"

text \<open>The truthiness test of \<^verbatim>\<open>if (data)\<close>.\<close>

fun truthy :: "jsval \<Rightarrow> bool" where
  "truthy JUndefined = False"
| "truthy JNull = False"
| "truthy (JBool b) = b"
| "truthy (JNumber n) = (n \<noteq> Number 0 \<and> n \<noteq> NaN)"
| "truthy (JString s) = (s \<noteq> [])"
| "truthy (JArray xs) = True"
| "truthy (JObject kvs) = True"

text \<open>An entry of the error log of \<^verbatim>\<open>validateChain\<close>: the object \<^verbatim>\<open>{ error: '...' }\<close>.\<close>

datatype finding = Finding (error: string)

text \<open>
  What a promise of the file is rejected with: the error log (\<^verbatim>\<open>reject(errors)\<close>), a
  string (\<^verbatim>\<open>reject('Error: ...')\<close>), an \<^verbatim>\<open>Error\<close> object with its message, or an exception
  that was caught and passed on.
\<close>

datatype rejection =
    ErrorLog "finding list"
  | Message string
  | Error string
  | TypeError
  | SyntaxError

datatype 'a promise = Pending | Fulfilled 'a | Rejected rejection

text \<open>A promise is settled once: \<^verbatim>\<open>resolve\<close> and \<^verbatim>\<open>reject\<close> on a settled promise do nothing.\<close>

definition resolve :: "'a \<Rightarrow> 'a promise \<Rightarrow> 'a promise" where
  "resolve v p = (case p of Pending \<Rightarrow> Fulfilled v | Fulfilled w \<Rightarrow> Fulfilled w | Rejected e \<Rightarrow> Rejected e)"

definition reject :: "rejection \<Rightarrow> 'a promise \<Rightarrow> 'a promise" where
  "reject e p = (case p of Pending \<Rightarrow> Rejected e | Fulfilled w \<Rightarrow> Fulfilled w | Rejected e' \<Rightarrow> Rejected e')"

text \<open>
  Reading a property named \<^verbatim>\<open>owner\<close> or \<^verbatim>\<open>star\<close> of a promise object: a promise has no
  such property, whatever its state, so the read yields \<^verbatim>\<open>undefined\<close>.
\<close>

definition promise_property :: "string \<Rightarrow> jsval promise \<Rightarrow> jsval" where
  "promise_property name p = JUndefined"

text \<open>Arithmetic and comparison of numbers that may be \<^verbatim>\<open>NaN\<close>.\<close>

fun js_minus :: "jsnum \<Rightarrow> jsnum \<Rightarrow> jsnum" where
  "js_minus (Number a) (Number b) = Number (a - b)"
| "js_minus a b = NaN"

fun js_le :: "jsnum \<Rightarrow> jsnum \<Rightarrow> bool" where
  "js_le (Number a) (Number b) = (a \<le> b)"
| "js_le a b = False"

fun js_gt :: "jsnum \<Rightarrow> jsnum \<Rightarrow> bool" where
  "js_gt (Number a) (Number b) = (a > b)"
| "js_gt a b = False"

section \<open>Strings: \<^verbatim>\<open>toString\<close>, \<^verbatim>\<open>slice\<close>, \<^verbatim>\<open>split\<close>, \<^verbatim>\<open>parseInt\<close>, \<^verbatim>\<open>JSON.stringify\<close>\<close>

definition digit_char :: "nat \<Rightarrow> char" where
  "digit_char d = ''0123456789abcdef'' ! d"

fun show_nat :: "nat \<Rightarrow> string" where
  "show_nat n = (if n < 10 then [digit_char n] else show_nat (n div 10) @ [digit_char (n mod 10)])"

text \<open>
  \<^verbatim>\<open>Number.prototype.toString\<close> on an integer (decimal digits, which is what JavaScript
  prints for integers below \<open>10\<^sup>2\<^sup>1\<close> in absolute value).
\<close>

definition toString :: "int \<Rightarrow> string" where
  "toString i = (if i < 0 then CHR ''-'' # show_nat (nat (- i)) else show_nat (nat i))"

text \<open>\<^verbatim>\<open>s.slice(0, -3)\<close>: the string without its last three characters.\<close>

definition slice_0_minus3 :: "string \<Rightarrow> string" where
  "slice_0_minus3 s = take (length s - 3) s"

text \<open>\<^verbatim>\<open>s.split(sep)\<close> for a one-character separator.\<close>

fun split_js :: "char \<Rightarrow> string \<Rightarrow> string list" where
  "split_js sep [] = [[]]"
| "split_js sep (c # cs) =
     (if c = sep then [] # split_js sep cs
      else (case split_js sep cs of [] \<Rightarrow> [[c]] | x # xs \<Rightarrow> (c # x) # xs))"

text \<open>\<^verbatim>\<open>arr[1]\<close>: the second element, or \<^verbatim>\<open>undefined\<close> (here \<open>None\<close>) when there is none.\<close>

fun second :: "'a list \<Rightarrow> 'a option" where
  "second (x # y # ys) = Some y"
| "second xs = None"

text \<open>
  The white space and line terminators that \<^verbatim>\<open>parseInt\<close> skips. A character here is a code
  unit below 256; of those, the ones JavaScript trims are the tab, the line feed, the
  vertical tab, the form feed, the carriage return, the space and the no-break space
  \<^verbatim>\<open>U+00A0\<close>.
\<close>

definition is_white :: "char \<Rightarrow> bool" where
  "is_white c = (c \<in> {CHR 0x09, CHR 0x0A, CHR 0x0B, CHR 0x0C, CHR 0x0D, CHR 0x20, CHR 0xA0})"

text \<open>The value of a character as a digit of the given radix (10 or 16), if it is one.\<close>

definition digit_value :: "nat \<Rightarrow> char \<Rightarrow> nat option" where
  "digit_value radix c =
     (let k = of_char c :: nat;
          v = (if 48 \<le> k \<and> k \<le> 57 then Some (k - 48)
               else if 97 \<le> k \<and> k \<le> 102 then Some (k - 87)
               else if 65 \<le> k \<and> k \<le> 70 then Some (k - 55)
               else None)
      in case v of None \<Rightarrow> None | Some d \<Rightarrow> (if d < radix then Some d else None))"

definition digits_value :: "nat \<Rightarrow> string \<Rightarrow> nat" where
  "digits_value radix z = foldl (\<lambda>a c. a * radix + (case digit_value radix c of None \<Rightarrow> 0 | Some d \<Rightarrow> d)) 0 z"

text \<open>
  \<^verbatim>\<open>parseInt(s)\<close> with no radix: leading white space is skipped, a sign is read, a prefix
  \<^verbatim>\<open>0x\<close> or \<^verbatim>\<open>0X\<close> selects radix 16, and the longest run of digits is the value; no digit
  gives \<^verbatim>\<open>NaN\<close>. The value is kept as an exact integer (JavaScript rounds it to a
  double beyond \<open>2\<^sup>5\<^sup>3\<close>, which changes no comparison made below).
\<close>

definition parseInt :: "string \<Rightarrow> jsnum" where
  "parseInt str =
     (let s = dropWhile is_white str;
          negative = (case s of [] \<Rightarrow> False | c # r \<Rightarrow> c = CHR ''-'');
          s1 = (case s of [] \<Rightarrow> s | c # r \<Rightarrow> if c = CHR ''-'' \<or> c = CHR ''+'' then r else s);
          hex = (take 2 s1 = ''0x'' \<or> take 2 s1 = ''0X'');
          radix = (if hex then 16 else 10);
          s2 = (if hex then drop 2 s1 else s1);
          z = takeWhile (\<lambda>c. digit_value radix c \<noteq> None) s2
      in if z = [] then NaN
         else Number ((if negative then - 1 else 1) * int (digits_value radix z)))"

text \<open>\<^verbatim>\<open>parseInt(x)\<close> where \<^verbatim>\<open>x\<close> may be \<^verbatim>\<open>undefined\<close>: the argument is first made a string.\<close>

definition parseInt_arg :: "string option \<Rightarrow> jsnum" where
  "parseInt_arg x = (case x of None \<Rightarrow> parseInt ''undefined'' | Some s \<Rightarrow> parseInt s)"

text \<open>
  \<^verbatim>\<open>JSON.stringify\<close> of a string: quoted, with the quote, the backslash and the control
  characters escaped.
\<close>

definition json_escape :: "char \<Rightarrow> string" where
  "json_escape c =
     (let k = of_char c :: nat in
      if c = CHR 0x22 then [CHR 0x5C, CHR 0x22]
      else if c = CHR 0x5C then [CHR 0x5C, CHR 0x5C]
      else if c = CHR 0x08 then [CHR 0x5C, CHR ''b'']
      else if c = CHR 0x0C then [CHR 0x5C, CHR ''f'']
      else if c = CHR 0x0A then [CHR 0x5C, CHR ''n'']
      else if c = CHR 0x0D then [CHR 0x5C, CHR ''r'']
      else if c = CHR 0x09 then [CHR 0x5C, CHR ''t'']
      else if k < 32 then [CHR 0x5C, CHR ''u'', CHR ''0'', CHR ''0'', digit_char (k div 16), digit_char (k mod 16)]
      else [c])"

definition json_string :: "string \<Rightarrow> string" where
  "json_string s = CHR 0x22 # concat (map json_escape s) @ [CHR 0x22]"

definition json_nullable :: "string option \<Rightarrow> string" where
  "json_nullable x = (case x of None \<Rightarrow> ''null'' | Some s \<Rightarrow> json_string s)"

definition json_number :: "jsnum \<Rightarrow> string" where
  "json_number n = (case n of NaN \<Rightarrow> ''null'' | Number i \<Rightarrow> toString i)"

section \<open>The class \<^verbatim>\<open>Block\<close>\<close>

text \<open>The fields in the order the constructor assigns them, which is the order
  \<^verbatim>\<open>JSON.stringify\<close> prints them in.\<close>

record block =
  hash :: "string option"
  height :: int
  body :: string
  time :: jsnum
  previousBlockHash :: "string option"

text \<open>\<^verbatim>\<open>new Block(data)\<close>.\<close>

definition new_Block :: "(jsval \<Rightarrow> string) \<Rightarrow> jsval \<Rightarrow> block" where
  "new_Block encode data =
     \<lparr>hash = None, height = 0, body = encode data, time = Number 0, previousBlockHash = None\<rparr>"

text \<open>\<^verbatim>\<open>JSON.stringify(block)\<close>.\<close>

definition stringify_block :: "block \<Rightarrow> string" where
  \<open>stringify_block b =
     ''{"hash":'' @ json_nullable (hash b) @
     '',"height":'' @ toString (height b) @
     '',"body":'' @ json_string (body b) @
     '',"time":'' @ json_number (time b) @
     '',"previousBlockHash":'' @ json_nullable (previousBlockHash b) @ ''}''\<close>

text \<open>
  \<^verbatim>\<open>Block.validate\<close>: the stored hash against the digest of the block printed with
  \<^verbatim>\<open>hash: null\<close>. The spread \<^verbatim>\<open>{...self, hash: null}\<close> keeps the order of the keys.
\<close>

definition validate :: "(string \<Rightarrow> string) \<Rightarrow> block \<Rightarrow> bool promise" where
  "validate sha self =
     (let isvalidBlock = (hash self = Some (sha (stringify_block (self\<lparr>hash := None\<rparr>))))
      in resolve isvalidBlock Pending)"

text \<open>
  The getter \<^verbatim>\<open>getBData\<close>. The executor does not return after \<^verbatim>\<open>resolve('Genesis Block!')\<close>:
  it goes on to decode the body. \<open>decode\<close> yields \<open>None\<close> where \<^verbatim>\<open>JSON.parse\<close> throws; an
  exception thrown in the executor of a promise rejects that promise.
\<close>

definition getBData :: "(string \<Rightarrow> jsval option) \<Rightarrow> block \<Rightarrow> jsval promise" where
  "getBData decode self =
     (let p = (if height self = 0 then resolve (JString ''Genesis Block!'') Pending else Pending)
      in case decode (body self) of
           None \<Rightarrow> reject SyntaxError p
         | Some data \<Rightarrow>
             if truthy data then resolve data p
             else reject (Error ''The block has no data.'') p)"

section \<open>The class \<^verbatim>\<open>Blockchain\<close>\<close>

text \<open>The fields \<^verbatim>\<open>this.chain\<close> and \<^verbatim>\<open>this.height\<close> (here \<open>chainHeight\<close>).\<close>

record blockchain =
  chain :: "block list"
  chainHeight :: int

definition getChainHeight :: "blockchain \<Rightarrow> int promise" where
  "getChainHeight self = resolve (chainHeight self) Pending"

text \<open>\<^verbatim>\<open>_getCurrentTimeStamp\<close>, from the clock's reading in milliseconds.\<close>

definition getCurrentTimeStamp :: "int \<Rightarrow> jsnum" where
  "getCurrentTimeStamp ms = parseInt (slice_0_minus3 (toString ms))"

text \<open>
  The callback \<^verbatim>\<open>validateChain\<close> passes to \<^verbatim>\<open>forEach\<close>, for the block at index \<open>idx\<close> of
  \<open>arr\<close>: the entries it pushes on the error log, and whether it ends in an exception.
  That happens when the first block has a positive height: \<^verbatim>\<open>arr[-1]\<close> is \<^verbatim>\<open>undefined\<close> and
  reading its \<^verbatim>\<open>hash\<close> throws a \<^verbatim>\<open>TypeError\<close> inside the asynchronous callback, where nothing
  catches it.
\<close>

definition validateChain_callback ::
  "(string \<Rightarrow> string) \<Rightarrow> block list \<Rightarrow> nat \<Rightarrow> block \<Rightarrow> finding list \<times> bool" where
  "validateChain_callback sha arr idx b =
     (case validate sha b of
        Fulfilled isValidBlock \<Rightarrow>
          (let log1 = (if \<not> isValidBlock then [Finding ''Block validation failed!''] else [])
           in if height b > 0 then
                (if idx = 0 then (log1, True)
                 else
                   (let checkHashChain = (previousBlockHash b = hash (arr ! (idx - 1)))
                    in (if \<not> checkHashChain
                        then log1 @ [Finding ''Hash os previous block do not match!'']
                        else log1, False)))
              else (log1, False))
      | Pending \<Rightarrow> ([], False)
      | Rejected e \<Rightarrow> ([], True))"

text \<open>
  The error log when every callback has run. The callbacks are asynchronous: each is
  suspended at \<^verbatim>\<open>await block.validate()\<close> and resumes in a microtask, in the order of the
  blocks; the caller awaiting the promise of \<^verbatim>\<open>validateChain\<close> resumes after them and
  reads the array they filled.
\<close>

definition errorLog :: "(string \<Rightarrow> string) \<Rightarrow> block list \<Rightarrow> finding list" where
  "errorLog sha arr =
     concat (map (\<lambda>(idx, b). fst (validateChain_callback sha arr idx b)) (enumerate 0 arr))"

text \<open>\<^verbatim>\<open>validateChain\<close>: it assigns nothing of \<^verbatim>\<open>this\<close>, so the state is returned as it was.\<close>

definition validateChain :: "(string \<Rightarrow> string) \<Rightarrow> blockchain \<Rightarrow> finding list promise \<times> blockchain" where
  "validateChain sha self = (resolve (errorLog sha (chain self)) Pending, self)"

text \<open>
  \<^verbatim>\<open>_addBlock\<close>. The block is sealed first; \<^verbatim>\<open>self.chain[self.chain.length - 1].hash\<close> throws
  a \<^verbatim>\<open>TypeError\<close> when the chain is empty, which the \<^verbatim>\<open>catch\<close> turns into a rejection. The
  digest is taken of the block as it stands. The chain is validated as it is before the
  block is pushed. \<open>addBlock\<close> is the method for a block object that the chain array does
  not hold already, the chain being the list of the values of its blocks; \<open>addBlock_at\<close>
  below is the method for any block object.
\<close>

definition seal :: "(string \<Rightarrow> string) \<Rightarrow> int \<Rightarrow> blockchain \<Rightarrow> block \<Rightarrow> block" where
  "seal sha ms self b =
     (let newHeight = chainHeight self + 1;
          b1 = b\<lparr>height := newHeight\<rparr>;
          b2 = (if newHeight > 0 then b1\<lparr>previousBlockHash := hash (last (chain self))\<rparr> else b1);
          b3 = b2\<lparr>time := getCurrentTimeStamp ms\<rparr>
      in b3\<lparr>hash := Some (sha (stringify_block b3))\<rparr>)"

definition addBlock ::
  "(string \<Rightarrow> string) \<Rightarrow> int \<Rightarrow> blockchain \<Rightarrow> block \<Rightarrow> block promise \<times> blockchain" where
  "addBlock sha ms self b =
     (if chainHeight self + 1 > 0 \<and> chain self = [] then (reject TypeError Pending, self)
      else
        (let sealed = seal sha ms self b in
         case validateChain sha self of
           (Fulfilled errors, self1) \<Rightarrow>
             if length errors = 0
             then (resolve sealed Pending,
                   self1\<lparr>chain := chain self1 @ [sealed], chainHeight := chainHeight self1 + 1\<rparr>)
             else (reject (ErrorLog errors) Pending, self1)
         | (Rejected err, self1) \<Rightarrow> (reject err Pending, self1)
         | (Pending, self1) \<Rightarrow> (Pending, self1)))"

text \<open>The constructor's assignments, and \<^verbatim>\<open>initializeChain\<close>.\<close>

definition constructor :: blockchain where
  "constructor = \<lparr>chain = [], chainHeight = - 1\<rparr>"

definition genesis_data :: jsval where
  "genesis_data = JObject [(''data'', JString ''Genesis Block'')]"

definition initializeChain ::
  "(string \<Rightarrow> string) \<Rightarrow> (jsval \<Rightarrow> string) \<Rightarrow> int \<Rightarrow> blockchain \<Rightarrow> unit promise \<times> blockchain" where
  "initializeChain sha encode ms self =
     (if chainHeight self = - 1 then
        (case addBlock sha ms self (new_Block encode genesis_data) of
           (Fulfilled b, self1) \<Rightarrow> (Fulfilled (), self1)
         | (Rejected err, self1) \<Rightarrow> (Rejected err, self1)
         | (Pending, self1) \<Rightarrow> (Pending, self1))
      else (Fulfilled (), self))"

text \<open>\<^verbatim>\<open>new Blockchain()\<close> once the genesis append it starts has completed.\<close>

definition new_Blockchain :: "(string \<Rightarrow> string) \<Rightarrow> (jsval \<Rightarrow> string) \<Rightarrow> int \<Rightarrow> blockchain" where
  "new_Blockchain sha encode ms = snd (initializeChain sha encode ms constructor)"

text \<open>
  \<^verbatim>\<open>requestMessageOwnershipVerification\<close>: the template string prints a number that is
  \<^verbatim>\<open>NaN\<close> as the text \<^verbatim>\<open>NaN\<close>.
\<close>

definition requestMessageOwnershipVerification :: "int \<Rightarrow> string \<Rightarrow> string promise" where
  "requestMessageOwnershipVerification ms address =
     resolve (address @ '':'' @
              (case getCurrentTimeStamp ms of NaN \<Rightarrow> ''NaN'' | Number i \<Rightarrow> toString i) @
              '':starRegistry'') Pending"

text \<open>
  \<^verbatim>\<open>submitStar\<close>. \<open>verify\<close> yields \<open>None\<close> where \<^verbatim>\<open>bitcoinMessage.verify\<close> throws: the
  exception leaves the asynchronous executor and the promise is never settled. Nothing
  settles it either when the check yields \<^verbatim>\<open>false\<close>: that \<^verbatim>\<open>if\<close> has no \<^verbatim>\<open>else\<close>. The
  clock is read twice, here and in \<^verbatim>\<open>_addBlock\<close> (\<open>ms\<close> and \<open>ms2\<close>).
\<close>

definition submitStar ::
  "(string \<Rightarrow> string) \<Rightarrow> (string \<Rightarrow> string \<Rightarrow> string \<Rightarrow> bool option) \<Rightarrow> (jsval \<Rightarrow> string) \<Rightarrow>
   int \<Rightarrow> int \<Rightarrow> blockchain \<Rightarrow> string \<Rightarrow> string \<Rightarrow> string \<Rightarrow> jsval \<Rightarrow> block promise \<times> blockchain" where
  "submitStar sha verify encode ms ms2 self address message signature star =
     (let timeFromMessage = parseInt_arg (second (split_js (CHR '':'') message));
          currentTime = getCurrentTimeStamp ms;
          deltaTime = js_minus currentTime timeFromMessage
      in if js_le deltaTime (Number (5 * 60)) then
           (case verify message address signature of
              Some True \<Rightarrow>
                (let newBlock = new_Block encode (JObject [(''star'', star), (''owner'', JString address)])
                 in case addBlock sha ms2 self newBlock of
                      (Fulfilled b, self1) \<Rightarrow> (resolve b Pending, self1)
                    | (Rejected err, self1) \<Rightarrow> (reject err Pending, self1)
                    | (Pending, self1) \<Rightarrow> (Pending, self1))
            | Some False \<Rightarrow> (Pending, self)
            | None \<Rightarrow> (Pending, self))
         else (reject (Message ''Error: time passed 5 minutes.'') Pending, self))"

text \<open>
  What a lookup resolves with: a block, \<^verbatim>\<open>null\<close> or \<^verbatim>\<open>undefined\<close>.
\<close>

datatype lookup = Found block | Null | Undefined

text \<open>\<^verbatim>\<open>getBlockByHash\<close>: the array of matches is always truthy, so its first element is
  resolved, which is \<^verbatim>\<open>undefined\<close> when there is no match.\<close>

definition getBlockByHash :: "blockchain \<Rightarrow> string \<Rightarrow> lookup promise" where
  "getBlockByHash self h =
     (case filter (\<lambda>b. hash b = Some h) (chain self) of
        [] \<Rightarrow> resolve Undefined Pending
      | b # bs \<Rightarrow> resolve (Found b) Pending)"

definition getBlockByHeight :: "blockchain \<Rightarrow> int \<Rightarrow> lookup promise" where
  "getBlockByHeight self h =
     (case filter (\<lambda>p. height p = h) (chain self) of
        [] \<Rightarrow> resolve Null Pending
      | b # bs \<Rightarrow> resolve (Found b) Pending)"

text \<open>
  \<^verbatim>\<open>getStarsByWalletAddress\<close>. \<^verbatim>\<open>block.getBData\<close> is a promise, and the code reads
  \<^verbatim>\<open>.owner\<close> and \<^verbatim>\<open>.star\<close> of the promise itself, not of the value it is fulfilled with.
  A promise rejected inside the getter is not an exception of the caller: the
  \<^verbatim>\<open>try\<close> around the scan never sees it.
\<close>

definition getStarsByWalletAddress ::
  "(string \<Rightarrow> jsval option) \<Rightarrow> blockchain \<Rightarrow> string \<Rightarrow> jsval list promise" where
  "getStarsByWalletAddress decode self address =
     (let stars =
        map (\<lambda>b. promise_property ''star'' (getBData decode b))
          (filter (\<lambda>b. promise_property ''owner'' (getBData decode b) = JString address) (chain self))
      in resolve stars Pending)"

section \<open>Blocks as objects in memory\<close>

text \<open>
  The store: the block objects that exist, each at an address (its index in \<open>objects\<close>),
  the chain array as the list of the addresses it holds, and the height counter. An
  assignment to a field of a block changes the object at its address, and so every place
  that holds the address.
\<close>

record memory =
  objects :: "block list"
  chainArray :: "nat list"
  heightField :: int

text \<open>The blocks the chain array refers to, and the chain as a reader sees it.\<close>

definition read_chain :: "memory \<Rightarrow> block list" where
  "read_chain m = map (\<lambda>a. objects m ! a) (chainArray m)"

definition contents :: "memory \<Rightarrow> blockchain" where
  "contents m = \<lparr>chain = read_chain m, chainHeight = heightField m\<rparr>"

text \<open>\<^verbatim>\<open>block.f = v\<close> for the block at address \<open>a\<close>, and \<^verbatim>\<open>new Block(data)\<close>, which makes an
  object at an address not used before.\<close>

definition assign :: "(block \<Rightarrow> block) \<Rightarrow> nat \<Rightarrow> memory \<Rightarrow> memory" where
  "assign f a m = m\<lparr>objects := (objects m)[a := f (objects m ! a)]\<rparr>"

definition new_Block_at :: "(jsval \<Rightarrow> string) \<Rightarrow> jsval \<Rightarrow> memory \<Rightarrow> nat \<times> memory" where
  "new_Block_at encode data m =
     (length (objects m), m\<lparr>objects := objects m @ [new_Block encode data]\<rparr>)"

text \<open>Every reference in the chain array is to an object that exists.\<close>

definition well_formed :: "memory \<Rightarrow> bool" where
  "well_formed m = list_all (\<lambda>a. a < length (objects m)) (chainArray m)"

text \<open>
  \<^verbatim>\<open>_addBlock(block)\<close> for the block at address \<open>a\<close>, statement by statement. The height
  is assigned before the last block's hash is read; an empty chain makes that read throw,
  and the \<^verbatim>\<open>catch\<close> rejects with the height already assigned. The digest is taken of
  the object as the first three assignments left it, and \<^verbatim>\<open>validateChain\<close> reads the chain
  array as it is in the store at that moment, before the push.
\<close>

definition addBlock_at ::
  "(string \<Rightarrow> string) \<Rightarrow> int \<Rightarrow> memory \<Rightarrow> nat \<Rightarrow> nat promise \<times> memory" where
  "addBlock_at sha ms m a =
     (let newHeight = heightField m + 1;
          m1 = assign (\<lambda>b. b\<lparr>height := newHeight\<rparr>) a m
      in if newHeight > 0 \<and> chainArray m1 = [] then (reject TypeError Pending, m1)
         else
           (let m2 = (if newHeight > 0
                      then assign (\<lambda>b. b\<lparr>previousBlockHash :=
                                           hash (objects m1 ! last (chainArray m1))\<rparr>) a m1
                      else m1);
                m3 = assign (\<lambda>b. b\<lparr>time := getCurrentTimeStamp ms\<rparr>) a m2;
                m4 = assign (\<lambda>b. b\<lparr>hash := Some (sha (stringify_block (objects m3 ! a)))\<rparr>) a m3
            in case validateChain sha (contents m4) of
                 (Fulfilled errors, c) \<Rightarrow>
                   if length errors = 0
                   then (resolve a Pending,
                         m4\<lparr>chainArray := chainArray m4 @ [a], heightField := heightField m4 + 1\<rparr>)
                   else (reject (ErrorLog errors) Pending, m4)
               | (Rejected err, c) \<Rightarrow> (reject err Pending, m4)
               | (Pending, c) \<Rightarrow> (Pending, m4)))"

text \<open>What both callers do: construct a block, then pass it to \<^verbatim>\<open>_addBlock\<close>.\<close>

definition create_and_add ::
  "(string \<Rightarrow> string) \<Rightarrow> (jsval \<Rightarrow> string) \<Rightarrow> int \<Rightarrow> jsval \<Rightarrow> memory \<Rightarrow> nat promise \<times> memory" where
  "create_and_add sha encode ms data m =
     (case new_Block_at encode data m of (a, m1) \<Rightarrow> addBlock_at sha ms m1 a)"


section \<open>The texts that are hashed\<close>

text \<open>
  The text \<^verbatim>\<open>JSON.stringify(block)\<close> whose digest \<^verbatim>\<open>_addBlock\<close> assigns to the hash field; the
  texts digested by a sequence of appends, one for each call made; and the text digested
  for the genesis block.
\<close>

definition seal_text :: "int \<Rightarrow> blockchain \<Rightarrow> block \<Rightarrow> string" where
  "seal_text ms self b =
     (let newHeight = chainHeight self + 1;
          b1 = b\<lparr>height := newHeight\<rparr>;
          b2 = (if newHeight > 0 then b1\<lparr>previousBlockHash := hash (last (chain self))\<rparr> else b1);
          b3 = b2\<lparr>time := getCurrentTimeStamp ms\<rparr>
      in stringify_block b3)"

fun hashed_texts :: "(string \<Rightarrow> string) \<Rightarrow> blockchain \<Rightarrow> (int \<times> block) list \<Rightarrow> string list" where
  "hashed_texts sha self [] = []"
| "hashed_texts sha self (mb # rest) =
     seal_text (fst mb) self (snd mb) #
     (case addBlock sha (fst mb) self (snd mb) of
        (Fulfilled b, self1) \<Rightarrow> hashed_texts sha self1 rest
      | (Rejected err, self1) \<Rightarrow> []
      | (Pending, self1) \<Rightarrow> [])"

definition genesis_text :: "(jsval \<Rightarrow> string) \<Rightarrow> int \<Rightarrow> string" where
  "genesis_text encode ms = seal_text ms constructor (new_Block encode genesis_data)"

section \<open>Sequences of appends\<close>

text \<open>
  A sequence of appends, each with the clock's reading at its time, all of which
  succeed: \<open>None\<close> as soon as one does not.
\<close>

fun appends :: "(string \<Rightarrow> string) \<Rightarrow> blockchain \<Rightarrow> (int \<times> block) list \<Rightarrow> blockchain option" where
  "appends sha self [] = Some self"
| "appends sha self (mb # rest) =
     (case addBlock sha (fst mb) self (snd mb) of
        (Fulfilled b, self1) \<Rightarrow> appends sha self1 rest
      | (Rejected err, self1) \<Rightarrow> None
      | (Pending, self1) \<Rightarrow> None)"

section \<open>The operations as the specification words them\<close>

text \<open>
  The specification's \<open>append\<close> (section 4.2, steps 1 to 7): the height is the number of
  blocks, the digest is taken with the hash field cleared, the block is placed at the
  end, the whole chain with the new block is validated, and the placement is undone on
  any error.
\<close>

definition append_spec ::
  "(string \<Rightarrow> string) \<Rightarrow> int \<Rightarrow> blockchain \<Rightarrow> block \<Rightarrow> block promise \<times> blockchain" where
  "append_spec sha ms self b =
     (let newHeight = (int (length (chain self)) - 1) + 1;
          b1 = b\<lparr>height := newHeight\<rparr>;
          b2 = (if newHeight > 0 then b1\<lparr>previousBlockHash := hash (last (chain self))\<rparr> else b1);
          b3 = b2\<lparr>time := getCurrentTimeStamp ms\<rparr>;
          b4 = b3\<lparr>hash := Some (sha (stringify_block (b3\<lparr>hash := None\<rparr>)))\<rparr>;
          placed = chain self @ [b4];
          errors = errorLog sha placed
      in if errors = []
         then (Fulfilled b4, self\<lparr>chain := placed, chainHeight := newHeight\<rparr>)
         else (Rejected (ErrorLog errors), self\<lparr>chain := butlast placed\<rparr>))"

text \<open>
  The specification's \<open>validate\<close> (section 4.3): records \<open>{kind, blockHeight}\<close>, for each
  block in order a \<open>SelfHashMismatch\<close> when its self-hash check is false and a
  \<open>BrokenLink\<close> when its height is positive and its previous hash is not the hash of
  the block before it. The first block of the sequence has no block before it and
  gets no \<open>BrokenLink\<close>.
\<close>

datatype kind = SelfHashMismatch | BrokenLink

record violation =
  kind :: kind
  blockHeight :: int

definition validateSelf :: "(string \<Rightarrow> string) \<Rightarrow> block \<Rightarrow> bool" where
  "validateSelf sha b = (hash b = Some (sha (stringify_block (b\<lparr>hash := None\<rparr>))))"

definition validate_spec_block :: "(string \<Rightarrow> string) \<Rightarrow> block list \<Rightarrow> nat \<Rightarrow> block \<Rightarrow> violation list" where
  "validate_spec_block sha arr idx b =
     (if \<not> validateSelf sha b then [\<lparr>kind = SelfHashMismatch, blockHeight = height b\<rparr>] else []) @
     (if height b > 0 \<and> idx > 0 \<and> previousBlockHash b \<noteq> hash (arr ! (idx - 1))
      then [\<lparr>kind = BrokenLink, blockHeight = height b\<rparr>] else [])"

definition validate_spec :: "(string \<Rightarrow> string) \<Rightarrow> block list \<Rightarrow> violation list" where
  "validate_spec sha arr =
     concat (map (\<lambda>(idx, b). validate_spec_block sha arr idx b) (enumerate 0 arr))"

text \<open>The entry of the code's error log for a kind of violation.\<close>

definition finding_of :: "violation \<Rightarrow> finding" where
  "finding_of v =
     (case kind v of
        SelfHashMismatch \<Rightarrow> Finding ''Block validation failed!''
      | BrokenLink \<Rightarrow> Finding ''Hash os previous block do not match!'')"

section \<open>Concrete inputs\<close>

text \<open>
  Stand-ins for the library functions at concrete inputs: a digest that never collides
  (the text itself), an encoder that gives every payload the hex text of \<^verbatim>\<open>{}\<close>, a
  decoder for which no body is JSON, and a signature check that answers \<^verbatim>\<open>false\<close>.
\<close>

definition sha_stub :: "string \<Rightarrow> string" where
  "sha_stub s = s"

definition encode_stub :: "jsval \<Rightarrow> string" where
  "encode_stub v = ''7b7d''"

definition decode_stub :: "string \<Rightarrow> jsval option" where
  "decode_stub s = None"

definition verify_false :: "string \<Rightarrow> string \<Rightarrow> string \<Rightarrow> bool option" where
  "verify_false message address signature = Some False"

definition verify_true :: "string \<Rightarrow> string \<Rightarrow> string \<Rightarrow> bool option" where
  "verify_true message address signature = Some True"

text \<open>A block as the constructor makes it, and one whose hash field is already set.\<close>

definition fresh_block :: block where
  "fresh_block = new_Block encode_stub (JObject [(''star'', JString ''s1''), (''owner'', JString ''addrA'')])"

definition hashed_block :: block where
  "hashed_block = fresh_block\<lparr>hash := Some ''x''\<rparr>"

text \<open>A chain made by the constructor at the clock reading 1700000000123.\<close>

definition chain0 :: blockchain where
  "chain0 = new_Blockchain sha_stub encode_stub 1700000000123"

text \<open>A block of height 0 whose body is not hex text of JSON and whose hash was never
  set, and a chain that holds only that block: its self-hash check fails.\<close>

definition garbage_block :: block where
  "garbage_block = \<lparr>hash = None, height = 0, body = ''zz'', time = Number 0, previousBlockHash = None\<rparr>"

definition broken_chain :: blockchain where
  "broken_chain = \<lparr>chain = [garbage_block], chainHeight = 0\<rparr>"

text \<open>Two appends of blocks as the constructor makes them.\<close>

definition two_appends :: "(int \<times> block) list" where
  "two_appends = [(1700000001000, fresh_block), (1700000002000, fresh_block)]"

text \<open>
  The fresh chain after one append of a fresh block; that sealed block with its hash
  field emptied; and the fresh chain with the emptied block as its second block, a
  chain whose only fault is the self-hash of the block of height 1.
\<close>

definition chain1 :: blockchain where
  "chain1 = snd (addBlock sha_stub 1700000001000 chain0 fresh_block)"

definition unhashed_block :: block where
  "unhashed_block = (seal sha_stub 1700000001000 chain0 fresh_block)\<lparr>hash := None\<rparr>"

definition tampered_chain :: blockchain where
  "tampered_chain = \<lparr>chain = chain chain0 @ [unhashed_block], chainHeight = 1\<rparr>"





section \<open>Basic facts\<close>

lemma resolve_Pending: "resolve v Pending = Fulfilled v"
  by (simp add: resolve_def)

lemma reject_Pending: "reject e Pending = Rejected e"
  by (simp add: reject_def)

lemma validate_eq: "validate sha b = Fulfilled (validateSelf sha b)"
  by (simp add: validate_def validateSelf_def resolve_def)

lemma validateChain_eq: "validateChain sha s = (Fulfilled (errorLog sha (chain s)), s)"
  by (simp add: validateChain_def resolve_def)

lemma callback_findings:
  "fst (validateChain_callback sha arr idx b) =
     (if validateSelf sha b then [] else [Finding ''Block validation failed!'']) @
     (if height b > 0 \<and> idx > 0 \<and> previousBlockHash b \<noteq> hash (arr ! (idx - 1))
      then [Finding ''Hash os previous block do not match!''] else [])"
  by (simp add: validateChain_callback_def validate_eq)

lemma callback_exception:
  "snd (validateChain_callback sha arr idx b) \<longleftrightarrow> 0 < height b \<and> idx = 0"
  by (simp add: validateChain_callback_def validate_eq Let_def)

lemma callback_Nil_iff:
  "fst (validateChain_callback sha arr idx b) = [] \<longleftrightarrow>
     validateSelf sha b \<and> (0 < height b \<and> 0 < idx \<longrightarrow> previousBlockHash b = hash (arr ! (idx - 1)))"
  by (auto simp add: callback_findings)

lemma callback_prefix:
  "idx \<le> length xs \<Longrightarrow>
     fst (validateChain_callback sha (xs @ ys) idx b) = fst (validateChain_callback sha xs idx b)"
  by (cases idx) (auto simp add: callback_findings nth_append)

lemma set_enumerate0: "set (enumerate 0 c) = {(i, c ! i) | i. i < length c}"
  by (auto simp add: in_set_enumerate_eq)

lemma hash_clear: "hash (x::block) = None \<Longrightarrow> x\<lparr>hash := None\<rparr> = x"
  by simp

lemma errorLog_Nil: "errorLog sha [] = []"
  by (simp add: errorLog_def)

lemma errorLog_snoc:
  "errorLog sha (xs @ [b]) =
     errorLog sha xs @ fst (validateChain_callback sha (xs @ [b]) (length xs) b)"
proof -
  have split: "enumerate 0 (xs @ [b]) = enumerate 0 xs @ [(length xs, b)]"
    by (simp add: enumerate_append_eq)
  have same: "map (\<lambda>(idx, x). fst (validateChain_callback sha (xs @ [b]) idx x)) (enumerate 0 xs) =
              map (\<lambda>(idx, x). fst (validateChain_callback sha xs idx x)) (enumerate 0 xs)"
    by (rule map_cong) (auto simp add: in_set_enumerate_eq callback_prefix)
  show ?thesis
    unfolding errorLog_def split by (simp add: same)
qed

lemma errorLog_Nil_iff:
  "errorLog sha c = [] \<longleftrightarrow>
     (\<forall>i<length c. validateSelf sha (c ! i) \<and>
        (0 < height (c ! i) \<and> 0 < i \<longrightarrow> previousBlockHash (c ! i) = hash (c ! (i - 1))))"
proof -
  have "errorLog sha c = [] \<longleftrightarrow>
        (\<forall>p\<in>set (enumerate 0 c). fst (validateChain_callback sha c (fst p) (snd p)) = [])"
    by (auto simp add: errorLog_def)
  also have "\<dots> \<longleftrightarrow> (\<forall>i<length c. fst (validateChain_callback sha c i (c ! i)) = [])"
    by (auto simp add: set_enumerate0)
  finally show ?thesis
    by (simp add: callback_Nil_iff)
qed

lemma errorLog_spec: "errorLog sha c = map finding_of (validate_spec sha c)"
proof -
  have "map (\<lambda>(idx, b). fst (validateChain_callback sha c idx b)) (enumerate 0 c) =
        map (\<lambda>(idx, b). map finding_of (validate_spec_block sha c idx b)) (enumerate 0 c)"
    by (rule map_cong) (auto simp add: callback_findings validate_spec_block_def finding_of_def)
  then have "errorLog sha c =
        concat (map (\<lambda>(idx, b). map finding_of (validate_spec_block sha c idx b)) (enumerate 0 c))"
    by (simp only: errorLog_def)
  also have "\<dots> = map finding_of (validate_spec sha c)"
    by (simp add: validate_spec_def map_concat comp_def case_prod_unfold)
  finally show ?thesis .
qed

lemma addBlock_eq:
  "addBlock sha ms s b =
     (if chainHeight s + 1 > 0 \<and> chain s = [] then (Rejected TypeError, s)
      else if errorLog sha (chain s) = []
      then (Fulfilled (seal sha ms s b),
            s\<lparr>chain := chain s @ [seal sha ms s b], chainHeight := chainHeight s + 1\<rparr>)
      else (Rejected (ErrorLog (errorLog sha (chain s))), s))"
  by (simp add: addBlock_def validateChain_eq resolve_def reject_def Let_def)

lemma seal_height: "height (seal sha ms s b) = chainHeight s + 1"
  by (simp add: seal_def Let_def)

lemma seal_previous:
  "0 < chainHeight s + 1 \<Longrightarrow> previousBlockHash (seal sha ms s b) = hash (last (chain s))"
  by (simp add: seal_def Let_def)

lemma seal_hash:
  "hash (seal sha ms s b) = Some (sha (stringify_block ((seal sha ms s b)\<lparr>hash := hash b\<rparr>)))"
  by (simp add: seal_def Let_def)

lemma seal_valid:
  assumes "hash b = None"
  shows "validateSelf sha (seal sha ms s b)"
  using seal_hash [of sha ms s b] assms by (simp add: validateSelf_def)

section \<open>The genesis block\<close>

lemma new_Blockchain_eq:
  "new_Blockchain sha encode ms =
     \<lparr>chain = [seal sha ms constructor (new_Block encode genesis_data)], chainHeight = 0\<rparr>"
  by (simp add: new_Blockchain_def initializeChain_def addBlock_eq constructor_def errorLog_Nil)

text \<open>
  Claim C7. A chain made by the constructor, once the genesis append it starts has
  completed, holds exactly one block; that block has height 0, no previous hash, and its
  \<^verbatim>\<open>validate\<close> resolves with true; the height counter is 0. This holds for every digest,
  payload encoder and clock reading.
\<close>

theorem genesis_invariant:
  "length (chain (new_Blockchain sha encode ms)) = 1
   \<and> height (chain (new_Blockchain sha encode ms) ! 0) = 0
   \<and> previousBlockHash (chain (new_Blockchain sha encode ms) ! 0) = None
   \<and> validate sha (chain (new_Blockchain sha encode ms) ! 0) = Fulfilled True
   \<and> chainHeight (new_Blockchain sha encode ms) = 0"
proof -
  let ?g = "seal sha ms constructor (new_Block encode genesis_data)"
  have fresh: "hash (new_Block encode genesis_data) = None"
    by (simp add: new_Block_def)
  have h: "height ?g = 0"
    by (simp add: seal_height constructor_def)
  have p: "previousBlockHash ?g = None"
    by (simp add: seal_def Let_def constructor_def new_Block_def)
  have v: "validate sha ?g = Fulfilled True"
    using seal_valid [OF fresh] by (simp add: validate_eq)
  show ?thesis
    by (simp add: new_Blockchain_eq h p v)
qed

section \<open>Reading the payload of a block\<close>

text \<open>
  Claim C10. For a block of height 0 the promise of \<^verbatim>\<open>getBData\<close> is fulfilled with the
  text \<^verbatim>\<open>Genesis Block!\<close> whatever the body holds and whatever decoding it does: the
  promise is settled before the body is decoded, and neither an exception of the
  decoder nor the later \<^verbatim>\<open>resolve\<close> or \<^verbatim>\<open>reject\<close> changes a settled promise.
\<close>

theorem getBData_genesis:
  "height b = 0 \<Longrightarrow> getBData decode b = Fulfilled (JString ''Genesis Block!'')"
  by (simp add: getBData_def Let_def resolve_def reject_def split: option.split)

theorem getBData_genesis_witness:
  "height garbage_block = 0 \<and> decode_stub (body garbage_block) = None
   \<and> getBData decode_stub garbage_block = Fulfilled (JString ''Genesis Block!'')"
  using getBData_genesis [of garbage_block decode_stub]
  by (simp add: garbage_block_def decode_stub_def)

section \<open>Stars of an owner\<close>

text \<open>
  Claim C4 says that \<^verbatim>\<open>getStarsByWalletAddress\<close> returns the stars whose owner is the
  address. The code compares the property \<^verbatim>\<open>owner\<close> of the promise that \<^verbatim>\<open>getBData\<close>
  returns, which is \<^verbatim>\<open>undefined\<close>, with the address: no block passes the filter, and
  the call resolves with the empty array for every chain, every address and every
  payload decoder.
\<close>

theorem getStarsByWalletAddress_empty:
  "getStarsByWalletAddress decode self address = Fulfilled []"
  by (simp add: getStarsByWalletAddress_def promise_property_def resolve_def)

section \<open>Appending a block\<close>

lemma stringify_hash_differs:
  "stringify_block (b\<lparr>hash := Some x\<rparr>) \<noteq> stringify_block (b\<lparr>hash := None\<rparr>)"
  by (simp add: stringify_block_def json_nullable_def json_string_def)

lemma seal_invalid:
  assumes "hash b = Some x" and "inj sha"
  shows "\<not> validateSelf sha (seal sha ms s b)"
proof -
  let ?c = "(seal sha ms s b)\<lparr>hash := None\<rparr>"
  have "(seal sha ms s b)\<lparr>hash := hash b\<rparr> = ?c\<lparr>hash := Some x\<rparr>"
    using assms(1) by simp
  then have "hash (seal sha ms s b) = Some (sha (stringify_block (?c\<lparr>hash := Some x\<rparr>)))"
    using seal_hash [of sha ms s b] by simp
  moreover have "stringify_block (?c\<lparr>hash := Some x\<rparr>) \<noteq> stringify_block (?c\<lparr>hash := None\<rparr>)"
    by (rule stringify_hash_differs)
  ultimately show ?thesis
    using assms(2) by (simp add: validateSelf_def inj_eq)
qed

lemma inj_sha_stub: "inj sha_stub"
  by (simp add: inj_def sha_stub_def)

lemma seal_callback_Nil:
  assumes "hash b = None" and "chainHeight s = int (length (chain s)) - 1"
  shows "fst (validateChain_callback sha (chain s @ [seal sha ms s b]) (length (chain s)) (seal sha ms s b)) = []"
proof -
  have valid: "validateSelf sha (seal sha ms s b)"
    using assms(1) by (rule seal_valid)
  have link: "previousBlockHash (seal sha ms s b) = hash ((chain s @ [seal sha ms s b]) ! (length (chain s) - 1))"
    if "0 < length (chain s)"
  proof -
    have "(chain s @ [seal sha ms s b]) ! (length (chain s) - 1) = last (chain s)"
      using that by (simp add: nth_append last_conv_nth)
    moreover have "0 < chainHeight s + 1"
      using that assms(2) by simp
    ultimately show ?thesis
      by (simp add: seal_previous)
  qed
  show ?thesis
    using valid link by (simp add: callback_Nil_iff)
qed

lemma append_spec_eq:
  assumes "hash b = None" and "chainHeight s = int (length (chain s)) - 1"
  shows "append_spec sha ms s b =
     (if errorLog sha (chain s @ [seal sha ms s b]) = []
      then (Fulfilled (seal sha ms s b),
            s\<lparr>chain := chain s @ [seal sha ms s b], chainHeight := chainHeight s + 1\<rparr>)
      else (Rejected (ErrorLog (errorLog sha (chain s @ [seal sha ms s b]))), s))"
  using assms by (simp add: append_spec_def seal_def Let_def hash_clear)

lemma append_spec_Fulfilled_valid:
  "fst (append_spec sha ms s b) = Fulfilled c \<Longrightarrow> validateSelf sha c"
  by (auto simp add: append_spec_def Let_def validateSelf_def split: if_splits)

lemma errorLog_new_Blockchain: "errorLog sha (chain (new_Blockchain sha encode ms)) = []"
proof -
  have "fst (validateChain_callback sha (chain constructor @ [seal sha ms constructor (new_Block encode genesis_data)])
          (length (chain constructor)) (seal sha ms constructor (new_Block encode genesis_data))) = []"
    by (rule seal_callback_Nil) (simp_all add: new_Block_def constructor_def)
  then show ?thesis
    using errorLog_snoc [of sha "[]"] by (simp add: new_Blockchain_eq constructor_def errorLog_Nil)
qed

lemma new_Blockchain_counter:
  "chainHeight (new_Blockchain sha encode ms) = int (length (chain (new_Blockchain sha encode ms))) - 1"
  by (simp add: new_Blockchain_eq)

lemma new_Blockchain_heights:
  "map height (chain (new_Blockchain sha encode ms)) =
     map int [0..<length (chain (new_Blockchain sha encode ms))]"
  by (simp add: new_Blockchain_eq seal_height constructor_def)

lemma addBlock_new_Blockchain:
  "addBlock sha ms (new_Blockchain sha encode ms0) b =
     (Fulfilled (seal sha ms (new_Blockchain sha encode ms0) b),
      (new_Blockchain sha encode ms0)\<lparr>chain := chain (new_Blockchain sha encode ms0) @
          [seal sha ms (new_Blockchain sha encode ms0) b], chainHeight := 1\<rparr>)"
  by (simp add: addBlock_eq errorLog_new_Blockchain) (simp add: new_Blockchain_eq)

lemma hashed_block_hash: "hash hashed_block = Some ''x''"
  by (simp add: hashed_block_def)

lemma hashed_block_run:
  "addBlock sha_stub 1700000001000 chain0 hashed_block =
     (Fulfilled (seal sha_stub 1700000001000 chain0 hashed_block),
      chain0\<lparr>chain := chain chain0 @ [seal sha_stub 1700000001000 chain0 hashed_block], chainHeight := 1\<rparr>)"
  unfolding chain0_def by (rule addBlock_new_Blockchain)

lemma hashed_block_invalid: "\<not> validateSelf sha_stub (seal sha_stub 1700000001000 chain0 hashed_block)"
  using hashed_block_hash inj_sha_stub by (rule seal_invalid)

text \<open>
  Claim C1, as amended. The claim says that \<^verbatim>\<open>_addBlock\<close> takes the digest with the hash
  field cleared, places the block, validates the chain with the new block in it and
  removes the block again on an error. The code takes the digest of the block as it
  stands, validates the chain as it is before the block is placed, and pushes the block
  only when that validation reports nothing. For a block whose hash field is null when
  it is passed (as the constructor of \<^verbatim>\<open>Block\<close> leaves it), and a chain whose height
  counter is the number of its blocks minus one, the outcome is the one the claim
  describes: the result and the state of \<^verbatim>\<open>_addBlock\<close> are those of the specification's
  append; the block is sealed with height, time stamp, previous hash (for a positive
  height) and a hash that is the digest of the block with the hash field cleared; with
  no error the block is pushed and returned, with any error nothing is placed and the
  call is rejected with the whole error log.
\<close>

theorem addBlock_is_append_spec:
  assumes "hash b = None" and "chainHeight s = int (length (chain s)) - 1"
  shows "addBlock sha ms s b = append_spec sha ms s b
     \<and> addBlock sha ms s b =
         (if errorLog sha (chain s) = []
          then (Fulfilled (seal sha ms s b),
                s\<lparr>chain := chain s @ [seal sha ms s b], chainHeight := chainHeight s + 1\<rparr>)
          else (Rejected (ErrorLog (errorLog sha (chain s))), s))
     \<and> hash (seal sha ms s b) = Some (sha (stringify_block ((seal sha ms s b)\<lparr>hash := None\<rparr>)))
     \<and> height (seal sha ms s b) = chainHeight s + 1
     \<and> time (seal sha ms s b) = getCurrentTimeStamp ms
     \<and> (0 < height (seal sha ms s b) \<longrightarrow> previousBlockHash (seal sha ms s b) = hash (last (chain s)))"
proof -
  have nonempty: "\<not> (chainHeight s + 1 > 0 \<and> chain s = [])"
    using assms(2) by auto
  have code: "addBlock sha ms s b =
         (if errorLog sha (chain s) = []
          then (Fulfilled (seal sha ms s b),
                s\<lparr>chain := chain s @ [seal sha ms s b], chainHeight := chainHeight s + 1\<rparr>)
          else (Rejected (ErrorLog (errorLog sha (chain s))), s))"
    using nonempty by (auto simp add: addBlock_eq)
  have log: "errorLog sha (chain s @ [seal sha ms s b]) = errorLog sha (chain s)"
    using seal_callback_Nil [OF assms] by (simp add: errorLog_snoc)
  have spec: "addBlock sha ms s b = append_spec sha ms s b"
    by (simp add: code append_spec_eq [OF assms] log)
  have h: "hash (seal sha ms s b) = Some (sha (stringify_block ((seal sha ms s b)\<lparr>hash := None\<rparr>)))"
    using seal_valid [OF assms(1)] by (simp add: validateSelf_def)
  have t: "time (seal sha ms s b) = getCurrentTimeStamp ms"
    by (simp add: seal_def Let_def)
  show ?thesis
    using spec code h t by (simp add: seal_height seal_previous)
qed

theorem addBlock_is_append_spec_witness:
  "hash fresh_block = None \<and> chainHeight chain0 = int (length (chain chain0)) - 1
   \<and> addBlock sha_stub 1700000001000 chain0 fresh_block =
      append_spec sha_stub 1700000001000 chain0 fresh_block
   \<and> fst (addBlock sha_stub 1700000001000 chain0 fresh_block) =
      Fulfilled (seal sha_stub 1700000001000 chain0 fresh_block)"
proof -
  have f: "hash fresh_block = None"
    by (simp add: fresh_block_def new_Block_def)
  have c: "chainHeight chain0 = int (length (chain chain0)) - 1"
    by (simp add: chain0_def new_Blockchain_eq)
  have e: "errorLog sha_stub (chain chain0) = []"
    by (simp add: chain0_def errorLog_new_Blockchain)
  note inst = addBlock_is_append_spec [OF f c, of sha_stub 1700000001000]
  from inst have same: "addBlock sha_stub 1700000001000 chain0 fresh_block =
      append_spec sha_stub 1700000001000 chain0 fresh_block"
    by blast
  from inst have "addBlock sha_stub 1700000001000 chain0 fresh_block =
      (if errorLog sha_stub (chain chain0) = []
       then (Fulfilled (seal sha_stub 1700000001000 chain0 fresh_block),
             chain0\<lparr>chain := chain chain0 @ [seal sha_stub 1700000001000 chain0 fresh_block],
                    chainHeight := chainHeight chain0 + 1\<rparr>)
       else (Rejected (ErrorLog (errorLog sha_stub (chain chain0))), chain0))"
    by blast
  then have ok: "fst (addBlock sha_stub 1700000001000 chain0 fresh_block) =
      Fulfilled (seal sha_stub 1700000001000 chain0 fresh_block)"
    by (simp add: e)
  show ?thesis
    using f c same ok by blast
qed

text \<open>
  The claim as it is stated fails for a block whose hash field is already set: on the
  fresh chain the append succeeds, the hash of the sealed block is not the digest of the
  block with the hash field cleared, validation of the chain with the new block reports
  an error although the block stays placed, and the result is not that of the
  specification's append.
\<close>

theorem addBlock_hashed_block_counterexample:
  "fst (addBlock sha_stub 1700000001000 chain0 hashed_block) =
      Fulfilled (seal sha_stub 1700000001000 chain0 hashed_block)
   \<and> hash (seal sha_stub 1700000001000 chain0 hashed_block) \<noteq>
      Some (sha_stub (stringify_block ((seal sha_stub 1700000001000 chain0 hashed_block)\<lparr>hash := None\<rparr>)))
   \<and> errorLog sha_stub (chain (snd (addBlock sha_stub 1700000001000 chain0 hashed_block))) \<noteq> []
   \<and> addBlock sha_stub 1700000001000 chain0 hashed_block \<noteq>
      append_spec sha_stub 1700000001000 chain0 hashed_block"
proof -
  let ?b = "seal sha_stub 1700000001000 chain0 hashed_block"
  have bad: "\<not> validateSelf sha_stub ?b"
    using hashed_block_hash inj_sha_stub by (rule seal_invalid)
  have run: "addBlock sha_stub 1700000001000 chain0 hashed_block =
      (Fulfilled ?b, chain0\<lparr>chain := chain chain0 @ [?b], chainHeight := 1\<rparr>)"
    unfolding chain0_def by (rule addBlock_new_Blockchain)
  have log: "errorLog sha_stub (chain chain0 @ [?b]) \<noteq> []"
    using bad by (simp add: errorLog_snoc callback_findings)
  have spec: "fst (append_spec sha_stub 1700000001000 chain0 hashed_block) \<noteq> Fulfilled ?b"
    using bad append_spec_Fulfilled_valid by blast
  have code: "fst (addBlock sha_stub 1700000001000 chain0 hashed_block) = Fulfilled ?b"
    by (simp add: run)
  have differ: "addBlock sha_stub 1700000001000 chain0 hashed_block \<noteq>
      append_spec sha_stub 1700000001000 chain0 hashed_block"
  proof
    assume "addBlock sha_stub 1700000001000 chain0 hashed_block =
      append_spec sha_stub 1700000001000 chain0 hashed_block"
    then have "fst (append_spec sha_stub 1700000001000 chain0 hashed_block) = Fulfilled ?b"
      using code by simp
    then show False
      using spec by simp
  qed
  show ?thesis
    using bad log differ by (simp add: run validateSelf_def)
qed

section \<open>Chains built by appends\<close>

lemma addBlock_fresh_step:
  assumes "hash b = None"
    and "chainHeight s = int (length (chain s)) - 1"
    and "errorLog sha (chain s) = []"
    and "map height (chain s) = map int [0..<length (chain s)]"
    and "addBlock sha ms s b = (Fulfilled c, s1)"
  shows "chainHeight s1 = int (length (chain s1)) - 1
     \<and> errorLog sha (chain s1) = []
     \<and> map height (chain s1) = map int [0..<length (chain s1)]
     \<and> length (chain s1) = Suc (length (chain s))"
proof -
  have s1: "s1 = s\<lparr>chain := chain s @ [seal sha ms s b], chainHeight := chainHeight s + 1\<rparr>"
    using assms(2,3,5) by (auto simp add: addBlock_eq split: if_splits)
  have log: "errorLog sha (chain s @ [seal sha ms s b]) = []"
    using seal_callback_Nil [OF assms(1,2)] assms(3) by (simp add: errorLog_snoc)
  show ?thesis
    using assms(2,4) log by (simp add: s1 seal_height)
qed

lemma appends_fresh_invariant:
  assumes "list_all (\<lambda>mb. hash (snd mb) = None) bs"
    and "appends sha s bs = Some s'"
    and "chainHeight s = int (length (chain s)) - 1"
    and "errorLog sha (chain s) = []"
    and "map height (chain s) = map int [0..<length (chain s)]"
  shows "chainHeight s' = int (length (chain s')) - 1
     \<and> errorLog sha (chain s') = []
     \<and> map height (chain s') = map int [0..<length (chain s')]
     \<and> length (chain s') = length (chain s) + length bs"
  using assms
proof (induction bs arbitrary: s)
  case Nil
  then show ?case by simp
next
  case (Cons mb rest)
  from Cons.prems(2) obtain c s1 where
    step: "addBlock sha (fst mb) s (snd mb) = (Fulfilled c, s1)" and rest: "appends sha s1 rest = Some s'"
    by (auto split: prod.splits promise.splits)
  from Cons.prems(1) have fresh: "hash (snd mb) = None" and freshs: "list_all (\<lambda>mb. hash (snd mb) = None) rest"
    by simp_all
  note inv1 = addBlock_fresh_step [OF fresh Cons.prems(3,4,5) step]
  from inv1 have a: "chainHeight s1 = int (length (chain s1)) - 1"
    and b: "errorLog sha (chain s1) = []"
    and c: "map height (chain s1) = map int [0..<length (chain s1)]"
    and d: "length (chain s1) = Suc (length (chain s))"
    by blast+
  from Cons.IH [OF freshs rest a b c] d show ?case
    by simp
qed

lemma appends_fresh_total:
  assumes "list_all (\<lambda>mb. hash (snd mb) = None) bs"
    and "chainHeight s = int (length (chain s)) - 1"
    and "errorLog sha (chain s) = []"
    and "map height (chain s) = map int [0..<length (chain s)]"
  shows "\<exists>s'. appends sha s bs = Some s'"
  using assms
proof (induction bs arbitrary: s)
  case Nil
  then show ?case by simp
next
  case (Cons mb rest)
  let ?b = "seal sha (fst mb) s (snd mb)"
  let ?s1 = "s\<lparr>chain := chain s @ [?b], chainHeight := chainHeight s + 1\<rparr>"
  from Cons.prems(1) have fresh: "hash (snd mb) = None" and freshs: "list_all (\<lambda>mb. hash (snd mb) = None) rest"
    by simp_all
  have step: "addBlock sha (fst mb) s (snd mb) = (Fulfilled ?b, ?s1)"
    using Cons.prems(2,3) by (auto simp add: addBlock_eq)
  note inv1 = addBlock_fresh_step [OF fresh Cons.prems(2,3,4) step]
  from inv1 have a: "chainHeight ?s1 = int (length (chain ?s1)) - 1"
    and b: "errorLog sha (chain ?s1) = []"
    and c: "map height (chain ?s1) = map int [0..<length (chain ?s1)]"
    by blast+
  from Cons.IH [OF freshs a b c] show ?case
    by (simp add: step)
qed

text \<open>
  Claim C6, as amended. After \<open>N\<close> successful appends to a freshly constructed chain,
  of blocks whose hash field is null when they are passed, the height counter is \<open>N\<close>,
  \<^verbatim>\<open>validateChain\<close> resolves with the empty list and leaves the chain as it is, every
  block after the first carries the hash of the block before it, and \<^verbatim>\<open>validate\<close> of
  every block resolves with true.
\<close>

theorem appends_fresh_valid:
  assumes "list_all (\<lambda>mb. hash (snd mb) = None) bs"
    and "appends sha (new_Blockchain sha encode ms0) bs = Some s"
  shows "chainHeight s = int (length bs)
     \<and> validateChain sha s = (Fulfilled [], s)
     \<and> (\<forall>i. 0 < i \<and> i < length (chain s) \<longrightarrow>
           previousBlockHash (chain s ! i) = hash (chain s ! (i - 1)))
     \<and> (\<forall>i < length (chain s). validate sha (chain s ! i) = Fulfilled True)"
proof -
  note inv = appends_fresh_invariant
    [OF assms new_Blockchain_counter errorLog_new_Blockchain new_Blockchain_heights]
  from inv have len: "length (chain s) = Suc (length bs)"
    by (simp add: new_Blockchain_eq)
  from inv have log: "errorLog sha (chain s) = []"
    by blast
  from inv have hs: "map height (chain s) = map int [0..<length (chain s)]"
    by blast
  have hi: "height (chain s ! i) = int i" if "i < length (chain s)" for i
  proof -
    have "map height (chain s) ! i = map int [0..<length (chain s)] ! i"
      by (simp only: hs)
    then show ?thesis
      using that by simp
  qed
  have link: "previousBlockHash (chain s ! i) = hash (chain s ! (i - 1))"
    if "0 < i" "i < length (chain s)" for i
    using log that hi [of i] by (simp add: errorLog_Nil_iff)
  have self: "validate sha (chain s ! i) = Fulfilled True" if "i < length (chain s)" for i
    using log that by (simp add: errorLog_Nil_iff validate_eq)
  have "chainHeight s = int (length bs)"
    using inv len by simp
  then show ?thesis
    using log link self by (simp add: validateChain_eq)
qed

theorem appends_fresh_valid_witness:
  "list_all (\<lambda>mb. hash (snd mb) = None) two_appends
   \<and> (\<exists>s. appends sha_stub chain0 two_appends = Some s
          \<and> chainHeight s = 2
          \<and> validateChain sha_stub s = (Fulfilled [], s)
          \<and> previousBlockHash (chain s ! 2) = hash (chain s ! 1)
          \<and> validate sha_stub (chain s ! 2) = Fulfilled True)"
proof -
  have f: "list_all (\<lambda>mb. hash (snd mb) = None) two_appends"
    by (simp add: two_appends_def fresh_block_def new_Block_def)
  have "\<exists>s. appends sha_stub (new_Blockchain sha_stub encode_stub 1700000000123) two_appends = Some s"
    using f new_Blockchain_counter errorLog_new_Blockchain new_Blockchain_heights
    by (rule appends_fresh_total)
  then obtain s where run: "appends sha_stub (new_Blockchain sha_stub encode_stub 1700000000123) two_appends = Some s"
    by blast
  note inst = appends_fresh_valid [OF f run]
  from inst have h: "chainHeight s = 2"
    by (simp add: two_appends_def)
  from inst have v: "validateChain sha_stub s = (Fulfilled [], s)"
    by blast
  have len: "length (chain s) = 3"
    using appends_fresh_invariant
      [OF f run new_Blockchain_counter errorLog_new_Blockchain new_Blockchain_heights]
    by (simp add: new_Blockchain_eq two_appends_def)
  from inst len have l: "previousBlockHash (chain s ! 2) = hash (chain s ! 1)"
    by auto
  from inst len have g: "validate sha_stub (chain s ! 2) = Fulfilled True"
    by auto
  show ?thesis
    using f run h v l g by (auto simp add: chain0_def)
qed

text \<open>
  The claim as it is stated fails when an appended block has its hash field set: the
  append to the fresh chain succeeds and the counter is 1, but \<^verbatim>\<open>validateChain\<close> then
  reports an error and \<^verbatim>\<open>validate\<close> of the new block resolves with false.
\<close>

theorem appends_hashed_block_counterexample:
  "appends sha_stub chain0 [(1700000001000, hashed_block)] =
      Some (snd (addBlock sha_stub 1700000001000 chain0 hashed_block))
   \<and> chainHeight (snd (addBlock sha_stub 1700000001000 chain0 hashed_block)) = 1
   \<and> fst (validateChain sha_stub (snd (addBlock sha_stub 1700000001000 chain0 hashed_block))) \<noteq> Fulfilled []
   \<and> validate sha_stub (chain (snd (addBlock sha_stub 1700000001000 chain0 hashed_block)) ! 1) = Fulfilled False"
proof -
  let ?b = "seal sha_stub 1700000001000 chain0 hashed_block"
  have len: "length (chain chain0) = 1"
    by (simp add: chain0_def new_Blockchain_eq)
  have log: "errorLog sha_stub (chain chain0 @ [?b]) \<noteq> []"
    using hashed_block_invalid by (simp add: errorLog_snoc callback_findings)
  show ?thesis
    using hashed_block_invalid log len
    by (simp add: hashed_block_run validateChain_eq validate_eq nth_append)
qed

section \<open>Validation of the chain\<close>

lemma validate_spec_Nil: "validate_spec sha [] = []"
  by (simp add: validate_spec_def)

lemma validate_spec_block_prefix:
  "idx \<le> length xs \<Longrightarrow> validate_spec_block sha (xs @ ys) idx b = validate_spec_block sha xs idx b"
  by (cases idx) (auto simp add: validate_spec_block_def nth_append)

lemma validate_spec_snoc:
  "validate_spec sha (xs @ [b]) =
     validate_spec sha xs @ validate_spec_block sha (xs @ [b]) (length xs) b"
proof -
  have split: "enumerate 0 (xs @ [b]) = enumerate 0 xs @ [(length xs, b)]"
    by (simp add: enumerate_append_eq)
  have same: "map (\<lambda>(idx, x). validate_spec_block sha (xs @ [b]) idx x) (enumerate 0 xs) =
        map (\<lambda>(idx, x). validate_spec_block sha xs idx x) (enumerate 0 xs)"
    by (rule map_cong) (auto simp add: in_set_enumerate_eq validate_spec_block_prefix)
  show ?thesis
    unfolding validate_spec_def split by (simp add: same)
qed

lemma validate_spec_Nil_iff: "validate_spec sha c = [] \<longleftrightarrow> errorLog sha c = []"
  by (simp add: errorLog_spec)

lemma fresh_block_hash: "hash fresh_block = None"
  by (simp add: fresh_block_def new_Block_def)

lemma chain0_length: "length (chain chain0) = 1"
  by (simp add: chain0_def new_Blockchain_eq)

lemma chain1_eq:
  "chain1 = chain0\<lparr>chain := chain chain0 @ [seal sha_stub 1700000001000 chain0 fresh_block], chainHeight := 1\<rparr>"
  by (simp add: chain1_def chain0_def addBlock_new_Blockchain)

lemma chain1_log: "errorLog sha_stub (chain chain1) = []"
proof -
  have "fst (validateChain_callback sha_stub (chain chain0 @ [seal sha_stub 1700000001000 chain0 fresh_block])
          (length (chain chain0)) (seal sha_stub 1700000001000 chain0 fresh_block)) = []"
    using fresh_block_hash by (rule seal_callback_Nil) (simp add: chain0_def new_Blockchain_counter)
  then show ?thesis
    by (simp add: chain1_eq errorLog_snoc chain0_def errorLog_new_Blockchain)
qed

text \<open>
  Claim C5, as amended. \<^verbatim>\<open>validateChain\<close> leaves the state as it is and resolves with a
  list of entries that carry the kind of the violation only, as an error message, and
  no block height: for each block in the order of the array, \<^verbatim>\<open>Block validation failed!\<close>
  when \<^verbatim>\<open>validate\<close> of the block is false, then \<^verbatim>\<open>Hash os previous block do not match!\<close>
  when the height of the block is positive, it has a block before it and its previous
  hash is not the hash of that block. The list is empty exactly when no block has
  such a violation.
\<close>

theorem validateChain_findings:
  "snd (validateChain sha s) = s
   \<and> fst (validateChain sha s) = Fulfilled (map finding_of (validate_spec sha (chain s)))
   \<and> (fst (validateChain sha s) = Fulfilled [] \<longleftrightarrow>
        (\<forall>i<length (chain s).
           validate sha (chain s ! i) = Fulfilled True
           \<and> (0 < height (chain s ! i) \<and> 0 < i \<longrightarrow>
                previousBlockHash (chain s ! i) = hash (chain s ! (i - 1)))))"
  by (simp add: validateChain_eq errorLog_spec [symmetric] errorLog_Nil_iff validate_eq)

theorem validateChain_findings_witness:
  "fst (validateChain sha_stub chain1) = Fulfilled []
   \<and> length (chain chain1) = 2
   \<and> 0 < height (chain chain1 ! 1)
   \<and> previousBlockHash (chain chain1 ! 1) = hash (chain chain1 ! 0)
   \<and> validate sha_stub (chain chain1 ! 1) = Fulfilled True"
proof -
  have len: "length (chain chain1) = 2"
    by (simp add: chain1_eq chain0_length)
  have h: "0 < height (chain chain1 ! 1)"
    by (simp add: chain1_eq nth_append chain0_length seal_height) (simp add: chain0_def new_Blockchain_eq)
  have ok: "fst (validateChain sha_stub chain1) = Fulfilled []"
    by (simp add: validateChain_eq chain1_log)
  from validateChain_findings [of sha_stub chain1] ok
  have all: "\<forall>i<length (chain chain1).
           validate sha_stub (chain chain1 ! i) = Fulfilled True
           \<and> (0 < height (chain chain1 ! i) \<and> 0 < i \<longrightarrow>
                previousBlockHash (chain chain1 ! i) = hash (chain chain1 ! (i - 1)))"
    by blast
  from all len h have "validate sha_stub (chain chain1 ! 1) = Fulfilled True
      \<and> previousBlockHash (chain chain1 ! 1) = hash (chain chain1 ! (1 - 1))"
    by auto
  then show ?thesis
    using ok len h by simp
qed

text \<open>
  The claim as it is stated gives every entry the height of its block. The code's
  entries cannot tell a self-hash mismatch at height 0 from one at height 1: the two
  chains below get the same list from \<^verbatim>\<open>validateChain\<close>, and different lists from the
  specification's \<open>validate\<close>.
\<close>

theorem validateChain_no_height_counterexample:
  "fst (validateChain sha_stub broken_chain) = Fulfilled [Finding ''Block validation failed!'']
   \<and> fst (validateChain sha_stub tampered_chain) = Fulfilled [Finding ''Block validation failed!'']
   \<and> validate_spec sha_stub (chain broken_chain) = [\<lparr>kind = SelfHashMismatch, blockHeight = 0\<rparr>]
   \<and> validate_spec sha_stub (chain tampered_chain) = [\<lparr>kind = SelfHashMismatch, blockHeight = 1\<rparr>]"
proof -
  have a: "validate_spec sha_stub (chain broken_chain) = [\<lparr>kind = SelfHashMismatch, blockHeight = 0\<rparr>]"
    by (simp add: validate_spec_def validate_spec_block_def validateSelf_def broken_chain_def garbage_block_def)
  have g: "validate_spec sha_stub (chain chain0) = []"
    by (simp add: validate_spec_Nil_iff chain0_def errorLog_new_Blockchain)
  have u1: "\<not> validateSelf sha_stub unhashed_block"
    by (simp add: validateSelf_def unhashed_block_def)
  have u2: "height unhashed_block = 1"
    by (simp add: unhashed_block_def seal_height) (simp add: chain0_def new_Blockchain_eq)
  have u3: "previousBlockHash unhashed_block = hash (chain chain0 ! 0)"
    using chain0_length
    by (simp add: unhashed_block_def seal_def Let_def last_conv_nth) (simp add: chain0_def new_Blockchain_eq)
  have b: "validate_spec sha_stub (chain tampered_chain) = [\<lparr>kind = SelfHashMismatch, blockHeight = 1\<rparr>]"
    using u1 u2 u3 chain0_length
    by (simp add: tampered_chain_def validate_spec_snoc g validate_spec_block_def nth_append)
  show ?thesis
    using a b by (simp add: validateChain_eq errorLog_spec finding_of_def)
qed

section \<open>Submitting a star\<close>

lemmas string_defs = toString_def slice_0_minus3_def parseInt_def parseInt_arg_def digit_value_def
  digits_value_def is_white_def digit_char_def getCurrentTimeStamp_def

lemma passthrough:
  "(case p of
      (Fulfilled b, self1) \<Rightarrow> (resolve b Pending, self1)
    | (Rejected err, self1) \<Rightarrow> (reject err Pending, self1)
    | (Pending, self1) \<Rightarrow> (Pending, self1)) = p"
  by (simp add: resolve_def reject_def split: prod.split promise.split)

lemma submitStar_eq:
  "submitStar sha verify encode ms ms2 s address message signature star =
     (if js_le (js_minus (getCurrentTimeStamp ms) (parseInt_arg (second (split_js (CHR '':'') message))))
           (Number 300)
      then (case verify message address signature of
              Some True \<Rightarrow>
                addBlock sha ms2 s (new_Block encode (JObject [(''star'', star), (''owner'', JString address)]))
            | Some False \<Rightarrow> (Pending, s)
            | None \<Rightarrow> (Pending, s))
      else (Rejected (Message ''Error: time passed 5 minutes.''), s))"
  by (simp add: submitStar_def Let_def passthrough reject_def split: option.split bool.split)

lemma js_gt_not_le: "js_gt a b \<Longrightarrow> \<not> js_le a b"
  by (cases a; cases b) simp_all

lemma delta_in_window:
  "js_minus (getCurrentTimeStamp 1700000300999)
     (parseInt_arg (second (split_js (CHR '':'') ''addrA:1700000001:starRegistry''))) = Number 299"
  by (simp add: string_defs)

lemma delta_future:
  "js_minus (getCurrentTimeStamp 1700000300999)
     (parseInt_arg (second (split_js (CHR '':'') ''addrA:1800000000:starRegistry''))) = Number (- 99999700)"
  by (simp add: string_defs)

lemma delta_expired:
  "js_minus (getCurrentTimeStamp 1700000300999)
     (parseInt_arg (second (split_js (CHR '':'') ''addrA:1699999999:starRegistry''))) = Number 301"
  by (simp add: string_defs)

lemma delta_missing:
  "js_minus (getCurrentTimeStamp 1700000300999)
     (parseInt_arg (second (split_js (CHR '':'') ''addrA''))) = NaN"
  by (simp add: string_defs)

lemma delta_padded:
  "js_minus (getCurrentTimeStamp 1700000300999)
     (parseInt_arg (second (split_js (CHR '':'') (''addrA:'' @ CHR 0xA0 # ''1700000001:starRegistry'')))) =
   Number 299"
  by (simp add: string_defs)

lemma js_minus_NaN: "js_minus a b = NaN \<longleftrightarrow> a = NaN \<or> b = NaN"
  by (cases a; cases b) simp_all

lemma js_le_NaN: "\<not> js_le NaN b"
  by (cases b) simp_all

lemma js_gt_NaN: "\<not> js_gt NaN b"
  by (cases b) simp_all

text \<open>
  Claim C3. With \<open>delta\<close> the clock's time stamp minus the number \<^verbatim>\<open>parseInt\<close> reads in the
  second field of the message: when \<open>delta > 300\<close> the call is rejected with
  \<^verbatim>\<open>Error: time passed 5 minutes.\<close> whatever the signature check would answer, and the
  state is unchanged; when \<open>delta \<le> 300\<close> the outcome is decided by the signature check
  (for a valid signature it is the outcome of \<^verbatim>\<open>_addBlock\<close> on the new block). When both
  numbers are integers \<open>now\<close> and \<open>t\<close>, \<open>delta\<close> is \<open>now - t\<close>, negative when the message is
  from the future: every \<open>now - t \<le> 300\<close> goes on to the signature check, so
  \<open>t = now - 299\<close> does, and every \<open>now - t > 300\<close> is rejected, so \<open>t = now - 301\<close> is.
  The branch taken is the one of the test \<open>delta \<le> 300\<close>: whenever that test is false
  the call is rejected in the same way without a signature check. That is also the case
  when \<open>delta\<close> is \<^verbatim>\<open>NaN\<close>, as it is when the clock's time stamp or the number read in the
  message is \<^verbatim>\<open>NaN\<close>: then \<open>delta > 300\<close> and \<open>delta \<le> 300\<close> are both false.
\<close>

theorem submitStar_window:
  "(js_gt (js_minus (getCurrentTimeStamp ms) (parseInt_arg (second (split_js (CHR '':'') message))))
        (Number 300) \<longrightarrow>
      (\<forall>verify. submitStar sha verify encode ms ms2 s address message signature star =
         (Rejected (Message ''Error: time passed 5 minutes.''), s)))
   \<and> (js_le (js_minus (getCurrentTimeStamp ms) (parseInt_arg (second (split_js (CHR '':'') message))))
        (Number 300) \<longrightarrow>
      submitStar sha verify encode ms ms2 s address message signature star =
        (case verify message address signature of
           Some True \<Rightarrow>
             addBlock sha ms2 s (new_Block encode (JObject [(''star'', star), (''owner'', JString address)]))
         | Some False \<Rightarrow> (Pending, s)
         | None \<Rightarrow> (Pending, s)))
   \<and> (\<forall>now t. getCurrentTimeStamp ms = Number now
         \<and> parseInt_arg (second (split_js (CHR '':'') message)) = Number t \<longrightarrow>
        js_minus (getCurrentTimeStamp ms) (parseInt_arg (second (split_js (CHR '':'') message))) =
          Number (now - t)
        \<and> (now - t \<le> 300 \<longrightarrow>
             submitStar sha verify encode ms ms2 s address message signature star =
               (case verify message address signature of
                  Some True \<Rightarrow>
                    addBlock sha ms2 s
                      (new_Block encode (JObject [(''star'', star), (''owner'', JString address)]))
                | Some False \<Rightarrow> (Pending, s)
                | None \<Rightarrow> (Pending, s)))
        \<and> (300 < now - t \<longrightarrow>
             (\<forall>verify. submitStar sha verify encode ms ms2 s address message signature star =
                (Rejected (Message ''Error: time passed 5 minutes.''), s))))
   \<and> (\<not> js_le (js_minus (getCurrentTimeStamp ms) (parseInt_arg (second (split_js (CHR '':'') message))))
          (Number 300) \<longrightarrow>
      (\<forall>verify. submitStar sha verify encode ms ms2 s address message signature star =
         (Rejected (Message ''Error: time passed 5 minutes.''), s)))
   \<and> (getCurrentTimeStamp ms = NaN \<or> parseInt_arg (second (split_js (CHR '':'') message)) = NaN \<longrightarrow>
        js_minus (getCurrentTimeStamp ms) (parseInt_arg (second (split_js (CHR '':'') message))) = NaN
        \<and> \<not> js_gt (js_minus (getCurrentTimeStamp ms) (parseInt_arg (second (split_js (CHR '':'') message))))
              (Number 300)
        \<and> \<not> js_le (js_minus (getCurrentTimeStamp ms) (parseInt_arg (second (split_js (CHR '':'') message))))
              (Number 300)
        \<and> (\<forall>verify. submitStar sha verify encode ms ms2 s address message signature star =
             (Rejected (Message ''Error: time passed 5 minutes.''), s)))"
proof -
  let ?delta = "js_minus (getCurrentTimeStamp ms) (parseInt_arg (second (split_js (CHR '':'') message)))"
  have c: "submitStar sha v encode ms ms2 s address message signature star =
         (Rejected (Message ''Error: time passed 5 minutes.''), s)"
    if "\<not> js_le ?delta (Number 300)" for v
    using that by (simp add: submitStar_eq)
  have a: "submitStar sha v encode ms ms2 s address message signature star =
         (Rejected (Message ''Error: time passed 5 minutes.''), s)"
    if "js_gt ?delta (Number 300)" for v
    using js_gt_not_le [OF that] by (rule c)
  have b: "submitStar sha verify encode ms ms2 s address message signature star =
        (case verify message address signature of
           Some True \<Rightarrow>
             addBlock sha ms2 s (new_Block encode (JObject [(''star'', star), (''owner'', JString address)]))
         | Some False \<Rightarrow> (Pending, s)
         | None \<Rightarrow> (Pending, s))"
    if "js_le ?delta (Number 300)"
    using that by (simp add: submitStar_eq)
  have d: "?delta = NaN \<and> \<not> js_gt ?delta (Number 300) \<and> \<not> js_le ?delta (Number 300)
        \<and> (\<forall>v. submitStar sha v encode ms ms2 s address message signature star =
             (Rejected (Message ''Error: time passed 5 minutes.''), s))"
    if "getCurrentTimeStamp ms = NaN \<or> parseInt_arg (second (split_js (CHR '':'') message)) = NaN"
  proof -
    from that have n: "?delta = NaN"
      by (simp only: js_minus_NaN)
    then have l: "\<not> js_le ?delta (Number 300)" and g: "\<not> js_gt ?delta (Number 300)"
      by (simp_all only: js_le_NaN js_gt_NaN not_False_eq_True)
    from n l g c [OF l] show ?thesis
      by blast
  qed
  have e: "?delta = Number (now - t)
        \<and> (now - t \<le> 300 \<longrightarrow> js_le ?delta (Number 300))
        \<and> (300 < now - t \<longrightarrow> js_gt ?delta (Number 300))"
    if "getCurrentTimeStamp ms = Number now \<and> parseInt_arg (second (split_js (CHR '':'') message)) = Number t"
    for now t
    using that by simp
  show ?thesis
    using a b c d e by (intro conjI allI impI) blast+
qed

theorem submitStar_window_witness:
  "js_le (js_minus (getCurrentTimeStamp 1700000300999)
            (parseInt_arg (second (split_js (CHR '':'') ''addrA:1700000001:starRegistry'')))) (Number 300)
   \<and> submitStar sha_stub verify_true encode_stub 1700000300999 1700000300999 chain0
        ''addrA'' ''addrA:1700000001:starRegistry'' ''sig'' (JString ''s1'') =
      addBlock sha_stub 1700000300999 chain0 fresh_block
   \<and> js_le (js_minus (getCurrentTimeStamp 1700000300999)
            (parseInt_arg (second (split_js (CHR '':'') ''addrA:1800000000:starRegistry'')))) (Number 300)
   \<and> submitStar sha_stub verify_true encode_stub 1700000300999 1700000300999 chain0
        ''addrA'' ''addrA:1800000000:starRegistry'' ''sig'' (JString ''s1'') =
      addBlock sha_stub 1700000300999 chain0 fresh_block
   \<and> js_gt (js_minus (getCurrentTimeStamp 1700000300999)
            (parseInt_arg (second (split_js (CHR '':'') ''addrA:1699999999:starRegistry'')))) (Number 300)
   \<and> submitStar sha_stub verify_true encode_stub 1700000300999 1700000300999 chain0
        ''addrA'' ''addrA:1699999999:starRegistry'' ''sig'' (JString ''s1'') =
      (Rejected (Message ''Error: time passed 5 minutes.''), chain0)
   \<and> parseInt_arg (second (split_js (CHR '':'') ''addrA'')) = NaN
   \<and> \<not> js_le (js_minus (getCurrentTimeStamp 1700000300999)
            (parseInt_arg (second (split_js (CHR '':'') ''addrA'')))) (Number 300)
   \<and> submitStar sha_stub verify_true encode_stub 1700000300999 1700000300999 chain0
        ''addrA'' ''addrA'' ''sig'' (JString ''s1'') =
      (Rejected (Message ''Error: time passed 5 minutes.''), chain0)
   \<and> js_le (js_minus (getCurrentTimeStamp 1700000300999)
            (parseInt_arg (second (split_js (CHR '':'')
               (''addrA:'' @ CHR 0xA0 # ''1700000001:starRegistry''))))) (Number 300)
   \<and> submitStar sha_stub verify_true encode_stub 1700000300999 1700000300999 chain0
        ''addrA'' (''addrA:'' @ CHR 0xA0 # ''1700000001:starRegistry'') ''sig'' (JString ''s1'') =
      addBlock sha_stub 1700000300999 chain0 fresh_block"
proof -
  have nan: "parseInt_arg (second (split_js (CHR '':'') ''addrA'')) = NaN"
    by (simp add: string_defs)
  note w1 = submitStar_window [of 1700000300999 "''addrA:1700000001:starRegistry''" sha_stub encode_stub
      1700000300999 chain0 "''addrA''" "''sig''" "JString ''s1''" verify_true]
  note w2 = submitStar_window [of 1700000300999 "''addrA:1800000000:starRegistry''" sha_stub encode_stub
      1700000300999 chain0 "''addrA''" "''sig''" "JString ''s1''" verify_true]
  note w3 = submitStar_window [of 1700000300999 "''addrA:1699999999:starRegistry''" sha_stub encode_stub
      1700000300999 chain0 "''addrA''" "''sig''" "JString ''s1''" verify_true]
  note w4 = submitStar_window [of 1700000300999 "''addrA''" sha_stub encode_stub
      1700000300999 chain0 "''addrA''" "''sig''" "JString ''s1''" verify_true]
  note w5 = submitStar_window [of 1700000300999 "''addrA:'' @ CHR 0xA0 # ''1700000001:starRegistry''"
      sha_stub encode_stub 1700000300999 chain0 "''addrA''" "''sig''" "JString ''s1''" verify_true]
  have p1: "js_le (js_minus (getCurrentTimeStamp 1700000300999)
            (parseInt_arg (second (split_js (CHR '':'') ''addrA:1700000001:starRegistry'')))) (Number 300)"
    unfolding delta_in_window by simp
  have p2: "js_le (js_minus (getCurrentTimeStamp 1700000300999)
            (parseInt_arg (second (split_js (CHR '':'') ''addrA:1800000000:starRegistry'')))) (Number 300)"
    unfolding delta_future by simp
  have p3: "js_gt (js_minus (getCurrentTimeStamp 1700000300999)
            (parseInt_arg (second (split_js (CHR '':'') ''addrA:1699999999:starRegistry'')))) (Number 300)"
    unfolding delta_expired by simp
  have p4: "\<not> js_le (js_minus (getCurrentTimeStamp 1700000300999)
            (parseInt_arg (second (split_js (CHR '':'') ''addrA'')))) (Number 300)"
    unfolding delta_missing by simp
  have p5: "js_le (js_minus (getCurrentTimeStamp 1700000300999)
            (parseInt_arg (second (split_js (CHR '':'')
               (''addrA:'' @ CHR 0xA0 # ''1700000001:starRegistry''))))) (Number 300)"
    unfolding delta_padded by simp
  have blk: "new_Block encode_stub (JObject [(''star'', JString ''s1''), (''owner'', JString ''addrA'')]) = fresh_block"
    by (simp add: fresh_block_def)
  have v: "verify_true m a g = Some True" for m a g
    by (simp add: verify_true_def)
  from w1 p1 have r1: "submitStar sha_stub verify_true encode_stub 1700000300999 1700000300999 chain0
        ''addrA'' ''addrA:1700000001:starRegistry'' ''sig'' (JString ''s1'') =
      addBlock sha_stub 1700000300999 chain0 fresh_block"
    by (simp only: v blk option.case bool.case simp_thms)
  from w2 p2 have r2: "submitStar sha_stub verify_true encode_stub 1700000300999 1700000300999 chain0
        ''addrA'' ''addrA:1800000000:starRegistry'' ''sig'' (JString ''s1'') =
      addBlock sha_stub 1700000300999 chain0 fresh_block"
    by (simp only: v blk option.case bool.case simp_thms)
  from w3 p3 have r3: "submitStar sha_stub verify_true encode_stub 1700000300999 1700000300999 chain0
        ''addrA'' ''addrA:1699999999:starRegistry'' ''sig'' (JString ''s1'') =
      (Rejected (Message ''Error: time passed 5 minutes.''), chain0)"
    by blast
  from w4 p4 have r4: "submitStar sha_stub verify_true encode_stub 1700000300999 1700000300999 chain0
        ''addrA'' ''addrA'' ''sig'' (JString ''s1'') =
      (Rejected (Message ''Error: time passed 5 minutes.''), chain0)"
    by blast
  from w5 p5 have r5: "submitStar sha_stub verify_true encode_stub 1700000300999 1700000300999 chain0
        ''addrA'' (''addrA:'' @ CHR 0xA0 # ''1700000001:starRegistry'') ''sig'' (JString ''s1'') =
      addBlock sha_stub 1700000300999 chain0 fresh_block"
    by (simp only: v blk option.case bool.case simp_thms)
  show ?thesis
    using p1 p2 p3 p4 p5 r1 r2 r3 r4 r5 nan by blast
qed

text \<open>
  Claim C2 says that a call inside the window whose signature fails verification fails
  with an error. In the code the \<^verbatim>\<open>if\<close> on the signature check has no \<^verbatim>\<open>else\<close>: the promise
  is neither resolved nor rejected. Here the message is 299 seconds old and the check
  answers \<^verbatim>\<open>false\<close>; no block is added, and the promise stays pending.
\<close>

theorem submitStar_invalid_signature_pending:
  "submitStar sha_stub verify_false encode_stub 1700000300999 1700000300999 chain0
      ''addrA'' ''addrA:1700000001:starRegistry'' ''tampered'' (JString ''s1'') = (Pending, chain0)"
  unfolding submitStar_eq delta_in_window by (simp add: verify_false_def)

section \<open>Digits and separators\<close>

lemma below_ten:
  "d < 10 \<Longrightarrow> d = 0 \<or> d = 1 \<or> d = 2 \<or> d = 3 \<or> d = 4 \<or> d = 5 \<or> d = 6 \<or> d = 7 \<or> d = 8 \<or> d = (9::nat)"
  by arith

lemma digit_char_plain:
  "d < 10 \<Longrightarrow> digit_char d \<noteq> CHR '','' \<and> digit_char d \<noteq> CHR ''-''"
  by (drule below_ten) (auto simp add: digit_char_def)

lemma digit_value_digit_char: "d < 10 \<Longrightarrow> digit_value 10 (digit_char d) = Some d"
  by (drule below_ten) (auto simp add: digit_char_def digit_value_def)

lemma show_nat_plain: "CHR '','' \<notin> set (show_nat n) \<and> CHR ''-'' \<notin> set (show_nat n)"
proof (induction n rule: show_nat.induct)
  case (1 n)
  show ?case
  proof (cases "n < 10")
    case True
    then show ?thesis
      using digit_char_plain [of n] by (subst (1 2) show_nat.simps) auto
  next
    case False
    then show ?thesis
      using 1 digit_char_plain [of "n mod 10"] by (subst (1 2) show_nat.simps) auto
  qed
qed

lemma digits_value_snoc:
  "digits_value r (xs @ [c]) =
     digits_value r xs * r + (case digit_value r c of None \<Rightarrow> 0 | Some d \<Rightarrow> d)"
  by (simp add: digits_value_def)

lemma digits_value_show_nat: "digits_value 10 (show_nat n) = n"
proof (induction n rule: show_nat.induct)
  case (1 n)
  show ?case
  proof (cases "n < 10")
    case True
    then show ?thesis
      by (subst show_nat.simps) (simp add: digits_value_def digit_value_digit_char)
  next
    case False
    then have "digits_value 10 (show_nat (n div 10)) = n div 10"
      using 1 by simp
    with False show ?thesis
      by (subst show_nat.simps) (simp add: digits_value_snoc digit_value_digit_char)
  qed
qed

lemma show_nat_inj: "show_nat m = show_nat n \<Longrightarrow> m = n"
  using digits_value_show_nat [of m] digits_value_show_nat [of n] by simp

lemma toString_plain: "CHR '','' \<notin> set (toString i)"
  using show_nat_plain by (simp add: toString_def)

lemma toString_inj: "toString i = toString j \<Longrightarrow> i = j"
proof -
  assume eq: "toString i = toString j"
  have minus: "CHR ''-'' # xs \<noteq> show_nat n" for xs n
    using show_nat_plain [of n] by (metis list.set_intros(1))
  show "i = j"
  proof (cases "i < 0")
    case True
    then have "j < 0"
      using eq minus [of "show_nat (nat (- i))" "nat j"] by (auto simp add: toString_def split: if_splits)
    with True eq have "show_nat (nat (- i)) = show_nat (nat (- j))"
      by (simp add: toString_def)
    then have "nat (- i) = nat (- j)"
      by (rule show_nat_inj)
    with True \<open>j < 0\<close> show ?thesis
      by simp
  next
    case False
    then have "\<not> j < 0"
      using eq minus [of "show_nat (nat (- j))" "nat i"] by (auto simp add: toString_def split: if_splits)
    with False eq have "show_nat (nat i) = show_nat (nat j)"
      by (simp add: toString_def)
    then have "nat i = nat j"
      by (rule show_nat_inj)
    with False \<open>\<not> j < 0\<close> show ?thesis
      by simp
  qed
qed

lemma separator_split:
  assumes "c \<notin> set xs" and "c \<notin> set ys" and "xs @ c # r1 = ys @ c # r2"
  shows "xs = ys"
proof -
  have "takeWhile (\<lambda>x. x \<noteq> c) (xs @ c # r1) = xs"
    using assms(1) by (auto simp add: takeWhile_tail)
  moreover have "takeWhile (\<lambda>x. x \<noteq> c) (ys @ c # r2) = ys"
    using assms(2) by (auto simp add: takeWhile_tail)
  ultimately show ?thesis
    using assms(3) by simp
qed

lemma toString_separator:
  "toString i @ CHR '','' # r1 = toString j @ CHR '','' # r2 \<Longrightarrow> i = j"
  using separator_split [OF toString_plain toString_plain] toString_inj by blast

lemma below_sixteen:
  "d < 16 \<Longrightarrow> d = 0 \<or> d = 1 \<or> d = 2 \<or> d = 3 \<or> d = 4 \<or> d = 5 \<or> d = 6 \<or> d = 7 \<or> d = 8 \<or> d = 9
     \<or> d = 10 \<or> d = 11 \<or> d = 12 \<or> d = 13 \<or> d = 14 \<or> d = (15::nat)"
  by arith

lemma digit_char_inj: "d < 16 \<Longrightarrow> e < 16 \<Longrightarrow> digit_char d = digit_char e \<Longrightarrow> d = e"
  by (drule below_sixteen, drule below_sixteen) (auto simp add: digit_char_def)

lemma json_escape_cases:
  "json_escape c = [CHR 0x5C, CHR 0x22] \<and> c = CHR 0x22
   \<or> json_escape c = [CHR 0x5C, CHR 0x5C] \<and> c = CHR 0x5C
   \<or> json_escape c = [CHR 0x5C, CHR ''b''] \<and> c = CHR 0x08
   \<or> json_escape c = [CHR 0x5C, CHR ''f''] \<and> c = CHR 0x0C
   \<or> json_escape c = [CHR 0x5C, CHR ''n''] \<and> c = CHR 0x0A
   \<or> json_escape c = [CHR 0x5C, CHR ''r''] \<and> c = CHR 0x0D
   \<or> json_escape c = [CHR 0x5C, CHR ''t''] \<and> c = CHR 0x09
   \<or> json_escape c = [CHR 0x5C, CHR ''u'', CHR ''0'', CHR ''0'',
          digit_char (of_char c div 16), digit_char (of_char c mod 16)] \<and> (of_char c :: nat) < 32
   \<or> json_escape c = [c] \<and> c \<noteq> CHR 0x22 \<and> c \<noteq> CHR 0x5C"
  by (simp add: json_escape_def Let_def)

lemma json_escape_prefix:
  assumes "json_escape c @ x = json_escape d @ y"
  shows "c = d \<and> x = y"
proof -
  have u: "c = d" if "(of_char c :: nat) < 32" "(of_char d :: nat) < 32"
    "digit_char (of_char c div 16) = digit_char (of_char d div 16)"
    "digit_char (of_char c mod 16) = digit_char (of_char d mod 16)"
  proof -
    have "(of_char c :: nat) div 16 = of_char d div 16"
      using that(1,2,3) by (intro digit_char_inj) auto
    moreover have "(of_char c :: nat) mod 16 = of_char d mod 16"
      using that(4) by (intro digit_char_inj) auto
    ultimately have "(of_char c :: nat) = of_char d"
      by (metis div_mult_mod_eq)
    then show ?thesis
      by simp
  qed
  from json_escape_cases [of c] json_escape_cases [of d] assms u show ?thesis
    by (elim disjE conjE) auto
qed

lemma json_escape_no_quote: "json_escape c @ x \<noteq> CHR 0x22 # y"
  using json_escape_cases [of c] by auto

lemma json_body_prefix:
  "concat (map json_escape s1) @ CHR 0x22 # r1 = concat (map json_escape s2) @ CHR 0x22 # r2
   \<Longrightarrow> s1 = s2 \<and> r1 = r2"
proof (induction s1 arbitrary: s2)
  case Nil
  then show ?case
    using json_escape_no_quote by (cases s2) (auto simp add: eq_commute [of "CHR 0x22 # r1"])
next
  case (Cons c s1)
  show ?case
  proof (cases s2)
    case Nil
    with Cons.prems show ?thesis
      using json_escape_no_quote by auto
  next
    case (Cons d s2')
    with Cons.prems have
      "json_escape c @ (concat (map json_escape s1) @ CHR 0x22 # r1) =
       json_escape d @ (concat (map json_escape s2') @ CHR 0x22 # r2)"
      by simp
    then have "c = d" and "concat (map json_escape s1) @ CHR 0x22 # r1 =
       concat (map json_escape s2') @ CHR 0x22 # r2"
      using json_escape_prefix by blast+
    with Cons.IH [of s2'] Cons show ?thesis
      by simp
  qed
qed

lemma json_string_prefix: "json_string s1 @ r1 = json_string s2 @ r2 \<Longrightarrow> s1 = s2 \<and> r1 = r2"
  using json_body_prefix [of s1 r1 s2 r2] by (simp add: json_string_def)

lemma json_nullable_prefix:
  "json_nullable h1 @ r1 = json_nullable h2 @ r2 \<Longrightarrow> h1 = h2 \<and> r1 = r2"
proof (cases h1; cases h2)
  fix a b
  assume "h1 = Some a" "h2 = Some b" "json_nullable h1 @ r1 = json_nullable h2 @ r2"
  then show ?thesis
    using json_string_prefix [of a r1 b r2] by (simp add: json_nullable_def)
qed (auto simp add: json_nullable_def json_string_def)

lemma stringify_block_height:
  assumes "stringify_block b1 = stringify_block b2"
  shows "height b1 = height b2"
proof -
  from assms have \<open>json_nullable (hash b1) @
       ('',"height":'' @ toString (height b1) @ '',"body":'' @ json_string (body b1) @
        '',"time":'' @ json_number (time b1) @
        '',"previousBlockHash":'' @ json_nullable (previousBlockHash b1) @ ''}'') =
     json_nullable (hash b2) @
       ('',"height":'' @ toString (height b2) @ '',"body":'' @ json_string (body b2) @
        '',"time":'' @ json_number (time b2) @
        '',"previousBlockHash":'' @ json_nullable (previousBlockHash b2) @ ''}'')\<close>
    by (simp add: stringify_block_def)
  then have \<open>'',"height":'' @ toString (height b1) @ '',"body":'' @ json_string (body b1) @
        '',"time":'' @ json_number (time b1) @
        '',"previousBlockHash":'' @ json_nullable (previousBlockHash b1) @ ''}'' =
     '',"height":'' @ toString (height b2) @ '',"body":'' @ json_string (body b2) @
        '',"time":'' @ json_number (time b2) @
        '',"previousBlockHash":'' @ json_nullable (previousBlockHash b2) @ ''}''\<close>
    using json_nullable_prefix by blast
  then show ?thesis
    by (auto dest: toString_separator)
qed

lemma stringify_block_not_Nil: "stringify_block b \<noteq> []"
  by (simp add: stringify_block_def)

section \<open>Looking blocks up\<close>

lemma filter_unique_key:
  "distinct (map f xs) \<Longrightarrow> x \<in> set xs \<Longrightarrow> filter (\<lambda>y. f y = f x) xs = [x]"
proof (induction xs)
  case Nil
  then show ?case by simp
next
  case (Cons a xs)
  show ?case
  proof (cases "a = x")
    case True
    have "filter (\<lambda>y. f y = f x) xs = []"
      using Cons.prems(1) True by (force simp add: filter_empty_conv image_iff)
    with True show ?thesis
      by simp
  next
    case False
    then have "x \<in> set xs"
      using Cons.prems(2) by simp
    moreover have "f a \<noteq> f x"
      using Cons.prems(1) \<open>x \<in> set xs\<close> by auto
    ultimately show ?thesis
      using Cons by simp
  qed
qed

lemma getBlockByHeight_found:
  "distinct (map height (chain s)) \<Longrightarrow> b \<in> set (chain s) \<Longrightarrow>
     getBlockByHeight s (height b) = Fulfilled (Found b)"
  by (simp add: getBlockByHeight_def filter_unique_key resolve_def)

lemma getBlockByHash_found:
  assumes "distinct (map hash (chain s))" and "b \<in> set (chain s)" and "hash b = Some h"
  shows "getBlockByHash s h = Fulfilled (Found b)"
proof -
  have "filter (\<lambda>y. hash y = hash b) (chain s) = [b]"
    using assms(1,2) by (rule filter_unique_key)
  then show ?thesis
    by (simp add: getBlockByHash_def assms(3) resolve_def)
qed

lemma getBlockByHeight_absent:
  "n \<notin> height ` set (chain s) \<Longrightarrow> getBlockByHeight s n = Fulfilled Null"
proof -
  assume "n \<notin> height ` set (chain s)"
  then have "filter (\<lambda>p. height p = n) (chain s) = []"
    by (auto simp add: filter_empty_conv)
  then show ?thesis
    by (simp add: getBlockByHeight_def resolve_def)
qed

lemma getBlockByHash_absent:
  "Some h \<notin> hash ` set (chain s) \<Longrightarrow> getBlockByHash s h = Fulfilled Undefined"
proof -
  assume "Some h \<notin> hash ` set (chain s)"
  then have "filter (\<lambda>b. hash b = Some h) (chain s) = []"
    by (auto simp add: filter_empty_conv image_iff)
  then show ?thesis
    by (simp add: getBlockByHash_def resolve_def)
qed

lemma seal_hash_text: "hash (seal sha ms s b) = Some (sha (seal_text ms s b))"
  by (simp add: seal_def seal_text_def Let_def)

lemma seal_text_height:
  "\<exists>blk. seal_text ms s b = stringify_block blk \<and> height blk = chainHeight s + 1"
proof -
  have "seal_text ms s b = stringify_block ((seal sha ms s b)\<lparr>hash := hash b\<rparr>)" for sha
    by (simp add: seal_def seal_text_def Let_def)
  moreover have "height ((seal sha ms s b)\<lparr>hash := hash b\<rparr>) = chainHeight s + 1" for sha
    by (simp add: seal_height)
  ultimately show ?thesis
    by blast
qed

lemma addBlock_texts_step:
  assumes "addBlock sha ms s b = (Fulfilled c, s1)"
    and "chainHeight s = int (length (chain s)) - 1"
    and "length ts = length (chain s)"
    and "\<forall>i<length (chain s). height (chain s ! i) = int i \<and> hash (chain s ! i) = Some (sha (ts ! i))
           \<and> (\<exists>blk. ts ! i = stringify_block blk \<and> height blk = int i)"
  shows "chainHeight s1 = int (length (chain s1)) - 1
     \<and> length (ts @ [seal_text ms s b]) = length (chain s1)
     \<and> (\<forall>i<length (chain s1). height (chain s1 ! i) = int i
            \<and> hash (chain s1 ! i) = Some (sha ((ts @ [seal_text ms s b]) ! i))
            \<and> (\<exists>blk. (ts @ [seal_text ms s b]) ! i = stringify_block blk \<and> height blk = int i))"
proof -
  have s1: "s1 = s\<lparr>chain := chain s @ [seal sha ms s b], chainHeight := chainHeight s + 1\<rparr>"
    using assms(1) by (auto simp add: addBlock_eq split: if_splits)
  have new: "\<exists>blk. seal_text ms s b = stringify_block blk \<and> height blk = int (length (chain s))"
    using seal_text_height [of ms s b] assms(2) by simp
  have "height (chain s1 ! i) = int i
            \<and> hash (chain s1 ! i) = Some (sha ((ts @ [seal_text ms s b]) ! i))
            \<and> (\<exists>blk. (ts @ [seal_text ms s b]) ! i = stringify_block blk \<and> height blk = int i)"
    if "i < length (chain s1)" for i
  proof (cases "i < length (chain s)")
    case True
    then show ?thesis
      using assms(3,4) by (simp add: s1 nth_append)
  next
    case False
    then have "i = length (chain s)"
      using that by (simp add: s1)
    then show ?thesis
      using assms(2,3) new by (simp add: s1 nth_append seal_height seal_hash_text)
  qed
  then show ?thesis
    using assms(2,3) by (simp add: s1)
qed

lemma appends_texts_invariant:
  assumes "appends sha s bs = Some s'"
    and "chainHeight s = int (length (chain s)) - 1"
    and "length ts = length (chain s)"
    and "\<forall>i<length (chain s). height (chain s ! i) = int i \<and> hash (chain s ! i) = Some (sha (ts ! i))
           \<and> (\<exists>blk. ts ! i = stringify_block blk \<and> height blk = int i)"
  shows "length (ts @ hashed_texts sha s bs) = length (chain s')
     \<and> (\<forall>i<length (chain s'). height (chain s' ! i) = int i
            \<and> hash (chain s' ! i) = Some (sha ((ts @ hashed_texts sha s bs) ! i))
            \<and> (\<exists>blk. (ts @ hashed_texts sha s bs) ! i = stringify_block blk \<and> height blk = int i))"
  using assms
proof (induction bs arbitrary: s ts)
  case Nil
  then show ?case by simp
next
  case (Cons mb rest)
  from Cons.prems(1) obtain c s1 where
    step: "addBlock sha (fst mb) s (snd mb) = (Fulfilled c, s1)" and rest: "appends sha s1 rest = Some s'"
    by (auto split: prod.splits promise.splits)
  note inv1 = addBlock_texts_step [OF step Cons.prems(2,3,4)]
  from inv1 have a: "chainHeight s1 = int (length (chain s1)) - 1"
    and b: "length (ts @ [seal_text (fst mb) s (snd mb)]) = length (chain s1)"
    and c: "\<forall>i<length (chain s1). height (chain s1 ! i) = int i
            \<and> hash (chain s1 ! i) = Some (sha ((ts @ [seal_text (fst mb) s (snd mb)]) ! i))
            \<and> (\<exists>blk. (ts @ [seal_text (fst mb) s (snd mb)]) ! i = stringify_block blk \<and> height blk = int i)"
    by blast+
  have texts: "ts @ hashed_texts sha s (mb # rest) =
      (ts @ [seal_text (fst mb) s (snd mb)]) @ hashed_texts sha s1 rest"
    by (simp add: step)
  from Cons.IH [OF rest a b c] show ?case
    unfolding texts .
qed

lemma new_Blockchain_texts:
  "length [genesis_text encode ms] = length (chain (new_Blockchain sha encode ms))
   \<and> (\<forall>i<length (chain (new_Blockchain sha encode ms)).
         height (chain (new_Blockchain sha encode ms) ! i) = int i
         \<and> hash (chain (new_Blockchain sha encode ms) ! i) = Some (sha ([genesis_text encode ms] ! i))
         \<and> (\<exists>blk. [genesis_text encode ms] ! i = stringify_block blk \<and> height blk = int i))"
  using seal_text_height [of ms constructor "new_Block encode genesis_data"]
  by (simp add: new_Blockchain_eq genesis_text_def seal_hash_text seal_height) (simp add: constructor_def)

lemma getBlockByHash_some:
  assumes "b \<in> set (chain s)" and "hash b = Some h"
  shows "\<exists>c. getBlockByHash s h = Fulfilled (Found c) \<and> hash c = Some h"
proof -
  have "b \<in> set (filter (\<lambda>x. hash x = Some h) (chain s))"
    using assms by simp
  then obtain c cs where f: "filter (\<lambda>x. hash x = Some h) (chain s) = c # cs"
    by (cases "filter (\<lambda>x. hash x = Some h) (chain s)") auto
  then have "c \<in> set (filter (\<lambda>x. hash x = Some h) (chain s))"
    by simp
  then have "hash c = Some h"
    by simp
  with f show ?thesis
    by (simp add: getBlockByHash_def resolve_def)
qed

lemma two_appends_fresh: "list_all (\<lambda>mb. hash (snd mb) = None) two_appends"
  by (simp add: two_appends_def fresh_block_hash)

lemma two_appends_run: "\<exists>s. appends sha_stub chain0 two_appends = Some s"
  unfolding chain0_def
  using two_appends_fresh new_Blockchain_counter errorLog_new_Blockchain new_Blockchain_heights
  by (rule appends_fresh_total)

text \<open>
  Claim C9. On a chain built by the constructor and any sequence of successful appends:
  for every block of the chain \<^verbatim>\<open>getBlockByHeight\<close> at its height resolves with that block;
  for a height that no block has \<^verbatim>\<open>getBlockByHeight\<close> resolves with \<^verbatim>\<open>null\<close>, and for a
  hash that no block has \<^verbatim>\<open>getBlockByHash\<close> resolves with \<^verbatim>\<open>undefined\<close>: neither is
  rejected. Every block of the chain has a hash, and \<^verbatim>\<open>getBlockByHash\<close> at that hash
  resolves with a block of that hash; it resolves with the block itself when the digest
  gave different values to the different texts it was applied to while the chain was
  built, which are as many as the calls of \<^verbatim>\<open>_addBlock\<close> made.
\<close>

theorem lookup_committed:
  assumes "appends sha (new_Blockchain sha encode ms0) bs = Some s"
  shows "(\<forall>b\<in>set (chain s). getBlockByHeight s (height b) = Fulfilled (Found b))
     \<and> (\<forall>n. n \<notin> height ` set (chain s) \<longrightarrow> getBlockByHeight s n = Fulfilled Null)
     \<and> (\<forall>h. Some h \<notin> hash ` set (chain s) \<longrightarrow> getBlockByHash s h = Fulfilled Undefined)
     \<and> (\<forall>b\<in>set (chain s). \<exists>h c. hash b = Some h \<and> getBlockByHash s h = Fulfilled (Found c) \<and> hash c = Some h)
     \<and> (inj_on sha (set (genesis_text encode ms0 # hashed_texts sha (new_Blockchain sha encode ms0) bs)) \<longrightarrow>
          (\<forall>b\<in>set (chain s). \<exists>h. hash b = Some h \<and> getBlockByHash s h = Fulfilled (Found b)))"
proof -
  let ?T = "[genesis_text encode ms0] @ hashed_texts sha (new_Blockchain sha encode ms0) bs"
  from new_Blockchain_texts [of encode ms0 sha]
  have l0: "length [genesis_text encode ms0] = length (chain (new_Blockchain sha encode ms0))"
    and i0: "\<forall>i<length (chain (new_Blockchain sha encode ms0)).
         height (chain (new_Blockchain sha encode ms0) ! i) = int i
         \<and> hash (chain (new_Blockchain sha encode ms0) ! i) = Some (sha ([genesis_text encode ms0] ! i))
         \<and> (\<exists>blk. [genesis_text encode ms0] ! i = stringify_block blk \<and> height blk = int i)"
    by blast+
  note inv = appends_texts_invariant [OF assms new_Blockchain_counter l0 i0]
  from inv have len: "length ?T = length (chain s)"
    by blast
  from inv have hi: "height (chain s ! i) = int i" if "i < length (chain s)" for i
    using that by blast
  from inv have ha: "hash (chain s ! i) = Some (sha (?T ! i))" if "i < length (chain s)" for i
    using that by blast
  from inv have tx: "\<exists>blk. ?T ! i = stringify_block blk \<and> height blk = int i" if "i < length (chain s)" for i
    using that by blast
  have dh: "distinct (map height (chain s))"
    by (auto simp add: distinct_conv_nth hi)
  have some: "\<exists>h. hash b = Some h" if "b \<in> set (chain s)" for b
    using that ha by (auto simp add: in_set_conv_nth)
  have part1: "\<forall>b\<in>set (chain s). getBlockByHeight s (height b) = Fulfilled (Found b)"
    using getBlockByHeight_found [OF dh] by blast
  have part4: "\<forall>b\<in>set (chain s). \<exists>h c. hash b = Some h \<and> getBlockByHash s h = Fulfilled (Found c) \<and> hash c = Some h"
    using some getBlockByHash_some by blast
  have part5: "\<forall>b\<in>set (chain s). \<exists>h. hash b = Some h \<and> getBlockByHash s h = Fulfilled (Found b)"
    if inj: "inj_on sha (set ?T)"
  proof -
    have "i = j" if "i < length (chain s)" "j < length (chain s)" "hash (chain s ! i) = hash (chain s ! j)" for i j
    proof -
      from that have same: "sha (?T ! i) = sha (?T ! j)"
        by (simp only: ha) simp
      have mi: "?T ! i \<in> set ?T" and mj: "?T ! j \<in> set ?T"
        using that(1,2) len by (metis nth_mem)+
      have eq: "?T ! i = ?T ! j"
        by (rule inj_onD [OF inj same mi mj])
      from tx [OF that(1)] tx [OF that(2)] obtain bi bj where
        "?T ! i = stringify_block bi" "height bi = int i" "?T ! j = stringify_block bj" "height bj = int j"
        by blast
      with eq stringify_block_height [of bi bj] show ?thesis
        by simp
    qed
    then have dd: "distinct (map hash (chain s))"
      by (auto simp add: distinct_conv_nth)
    show ?thesis
      using some getBlockByHash_found [OF dd] by blast
  qed
  show ?thesis
    using part1 part4 part5 getBlockByHeight_absent getBlockByHash_absent by simp
qed

theorem lookup_committed_witness:
  "\<exists>s. appends sha_stub (new_Blockchain sha_stub encode_stub 1700000000123) two_appends = Some s
      \<and> inj_on sha_stub (set (genesis_text encode_stub 1700000000123 #
                               hashed_texts sha_stub (new_Blockchain sha_stub encode_stub 1700000000123) two_appends))
      \<and> chain s ! 2 \<in> set (chain s)
      \<and> height (chain s ! 2) = 2
      \<and> getBlockByHeight s 2 = Fulfilled (Found (chain s ! 2))
      \<and> (\<exists>h. hash (chain s ! 2) = Some h \<and> getBlockByHash s h = Fulfilled (Found (chain s ! 2)))
      \<and> getBlockByHeight s 7 = Fulfilled Null
      \<and> getBlockByHash s [] = Fulfilled Undefined"
proof -
  let ?T = "genesis_text encode_stub 1700000000123 #
            hashed_texts sha_stub (new_Blockchain sha_stub encode_stub 1700000000123) two_appends"
  obtain s where run: "appends sha_stub chain0 two_appends = Some s"
    using two_appends_run by blast
  then have run0: "appends sha_stub (new_Blockchain sha_stub encode_stub 1700000000123) two_appends = Some s"
    by (simp add: chain0_def)
  have inj: "inj_on sha_stub (set ?T)"
    using inj_sha_stub by (rule inj_on_subset) simp
  note inv = appends_fresh_invariant
    [OF two_appends_fresh run0 new_Blockchain_counter errorLog_new_Blockchain new_Blockchain_heights]
  from inv have len: "length (chain s) = 3"
    by (simp add: new_Blockchain_eq two_appends_def)
  from inv have heights: "map height (chain s) = map int [0..<length (chain s)]"
    by blast
  from inv have log: "errorLog sha_stub (chain s) = []"
    by blast
  have memb: "chain s ! 2 \<in> set (chain s)"
    using len by simp
  have "map height (chain s) ! 2 = map int [0..<length (chain s)] ! 2"
    by (simp only: heights)
  then have h2: "height (chain s ! 2) = 2"
    using len by simp
  have "set (map height (chain s)) = set (map int [0..<3])"
    using heights len by simp
  then have no7: "7 \<notin> height ` set (chain s)"
    by auto
  have noh: "Some [] \<notin> hash ` set (chain s)"
  proof
    assume "Some [] \<in> hash ` set (chain s)"
    then obtain i where i: "i < length (chain s)" and e: "hash (chain s ! i) = Some []"
      by (auto simp add: in_set_conv_nth)
    from log i have "validateSelf sha_stub (chain s ! i)"
      by (simp add: errorLog_Nil_iff)
    with e show False
      by (simp add: validateSelf_def sha_stub_def stringify_block_not_Nil [symmetric])
  qed
  note inst = lookup_committed [OF run0]
  from inst memb have a: "getBlockByHeight s (height (chain s ! 2)) = Fulfilled (Found (chain s ! 2))"
    by blast
  from inst inj have "\<forall>b\<in>set (chain s). \<exists>h. hash b = Some h \<and> getBlockByHash s h = Fulfilled (Found b)"
    by blast
  with memb have b: "\<exists>h. hash (chain s ! 2) = Some h \<and> getBlockByHash s h = Fulfilled (Found (chain s ! 2))"
    by blast
  from inst no7 have c: "getBlockByHeight s 7 = Fulfilled Null"
    by blast
  from inst noh have d: "getBlockByHash s [] = Fulfilled Undefined"
    by blast
  show ?thesis
    using run0 inj memb h2 a b c d by auto
qed

section \<open>Appends that fail\<close>

lemma assign_simps:
  "chainArray (assign f a m) = chainArray m"
  "heightField (assign f a m) = heightField m"
  "length (objects (assign f a m)) = length (objects m)"
  "a < length (objects m) \<Longrightarrow> objects (assign f a m) ! a = f (objects m ! a)"
  "x \<noteq> a \<Longrightarrow> objects (assign f a m) ! x = objects m ! x"
  by (simp_all add: assign_def)

lemma read_chain_update:
  "a \<notin> set (chainArray m) \<Longrightarrow> read_chain (m\<lparr>objects := (objects m)[a := v]\<rparr>) = read_chain m"
proof -
  assume "a \<notin> set (chainArray m)"
  then have "\<forall>x\<in>set (chainArray m). (objects m)[a := v] ! x = objects m ! x"
    by (metis nth_list_update_neq)
  then show ?thesis
    by (simp add: read_chain_def)
qed

lemma hash_after_height:
  "a < length xs \<Longrightarrow> hash (xs[a := (xs ! a)\<lparr>height := h\<rparr>] ! l) = hash (xs ! l)"
  by (cases "l = a") simp_all

lemma last_read_chain:
  "chainArray m \<noteq> [] \<Longrightarrow> objects m ! last (chainArray m) = last (chain (contents m))"
  by (simp add: contents_def read_chain_def last_map)

lemma addBlock_at_eq:
  assumes "a < length (objects m)"
  shows "addBlock_at sha ms m a =
     (if heightField m + 1 > 0 \<and> chainArray m = []
      then (Rejected TypeError, m\<lparr>objects := (objects m)[a := (objects m ! a)\<lparr>height := heightField m + 1\<rparr>]\<rparr>)
      else if errorLog sha (read_chain (m\<lparr>objects := (objects m)[a := seal sha ms (contents m) (objects m ! a)]\<rparr>)) = []
      then (Fulfilled a,
            m\<lparr>objects := (objects m)[a := seal sha ms (contents m) (objects m ! a)],
              chainArray := chainArray m @ [a], heightField := heightField m + 1\<rparr>)
      else (Rejected (ErrorLog (errorLog sha
               (read_chain (m\<lparr>objects := (objects m)[a := seal sha ms (contents m) (objects m ! a)]\<rparr>)))),
            m\<lparr>objects := (objects m)[a := seal sha ms (contents m) (objects m ! a)]\<rparr>))"
proof -
  define m1 where "m1 = assign (\<lambda>b. b\<lparr>height := heightField m + 1\<rparr>) a m"
  define m2 where "m2 = (if heightField m + 1 > 0
                      then assign (\<lambda>b. b\<lparr>previousBlockHash :=
                                           hash (objects m1 ! last (chainArray m1))\<rparr>) a m1
                      else m1)"
  define m3 where "m3 = assign (\<lambda>b. b\<lparr>time := getCurrentTimeStamp ms\<rparr>) a m2"
  define m4 where "m4 = assign (\<lambda>b. b\<lparr>hash := Some (sha (stringify_block (objects m3 ! a)))\<rparr>) a m3"
  have steps: "addBlock_at sha ms m a =
     (if heightField m + 1 > 0 \<and> chainArray m1 = [] then (reject TypeError Pending, m1)
      else case validateChain sha (contents m4) of
             (Fulfilled errors, c) \<Rightarrow>
               if length errors = 0
               then (resolve a Pending,
                     m4\<lparr>chainArray := chainArray m4 @ [a], heightField := heightField m4 + 1\<rparr>)
               else (reject (ErrorLog errors) Pending, m4)
           | (Rejected err, c) \<Rightarrow> (reject err Pending, m4)
           | (Pending, c) \<Rightarrow> (Pending, m4))"
    by (simp only: addBlock_at_def Let_def m1_def m2_def m3_def m4_def)
  have first: "m1 = m\<lparr>objects := (objects m)[a := (objects m ! a)\<lparr>height := heightField m + 1\<rparr>]\<rparr>"
    by (simp add: m1_def assign_def)
  have h: "chainHeight (contents m) = heightField m"
    by (simp add: contents_def)
  have last: "m4 = m\<lparr>objects := (objects m)[a := seal sha ms (contents m) (objects m ! a)]\<rparr>"
    if "\<not> (heightField m + 1 > 0 \<and> chainArray m = [])"
  proof (cases "heightField m + 1 > 0")
    case True
    with that have ne: "chainArray m \<noteq> []"
      by simp
    show ?thesis
      using assms True
      by (simp add: m4_def m3_def m2_def m1_def assign_def seal_def Let_def h hash_after_height
          last_read_chain [OF ne])
  next
    case False
    then show ?thesis
      using assms by (simp add: m4_def m3_def m2_def m1_def assign_def seal_def Let_def h)
  qed
  show ?thesis
  proof (cases "heightField m + 1 > 0 \<and> chainArray m = []")
    case True
    then show ?thesis
      by (simp add: steps first reject_def)
  next
    case False
    then have c1: "\<not> (heightField m + 1 > 0 \<and> chainArray m1 = [])"
      by (simp add: first)
    show ?thesis
      using False
      by (simp only: steps c1 last [OF False] if_False)
        (simp add: validateChain_eq contents_def resolve_def reject_def)
  qed
qed

text \<open>
  For a block object that the chain array does not hold, \<open>addBlock_at\<close> does to the chain
  a reader sees what \<open>addBlock\<close> does to the chain of values, and settles its promise the
  same way. A block that has just been constructed is such an object, so constructing a
  block and appending it is \<open>addBlock\<close> of the new block.
\<close>

lemma contents_update_fresh:
  "a \<notin> set (chainArray m) \<Longrightarrow> contents (m\<lparr>objects := (objects m)[a := v]\<rparr>) = contents m"
  using read_chain_update [of a m v] by (simp add: contents_def)


lemma addBlock_at_fresh:
  assumes "a < length (objects m)" and "a \<notin> set (chainArray m)"
  shows "contents (snd (addBlock_at sha ms m a)) = snd (addBlock sha ms (contents m) (objects m ! a))
     \<and> map_promise (\<lambda>x. objects (snd (addBlock_at sha ms m a)) ! x) (fst (addBlock_at sha ms m a)) =
         fst (addBlock sha ms (contents m) (objects m ! a))"
proof -
  let ?v = "seal sha ms (contents m) (objects m ! a)"
  have same: "read_chain (m\<lparr>objects := (objects m)[a := ?v]\<rparr>) = chain (contents m)"
    using assms(2) by (simp add: read_chain_update contents_def)
  have c1: "contents (m\<lparr>objects := (objects m)[a := w]\<rparr>) = contents m" for w
    using assms(2) by (rule contents_update_fresh)
  have c2: "contents (m\<lparr>objects := (objects m)[a := ?v], chainArray := chainArray m @ [a],
                heightField := heightField m + 1\<rparr>) =
            (contents m)\<lparr>chain := chain (contents m) @ [?v], chainHeight := chainHeight (contents m) + 1\<rparr>"
    using assms same by (simp add: contents_def read_chain_def)
  have e: "chainArray m = [] \<longleftrightarrow> chain (contents m) = []"
    by (simp add: contents_def read_chain_def)
  have h: "chainHeight (contents m) = heightField m"
    by (simp add: contents_def)
  show ?thesis
    using assms(1)
    by (simp add: addBlock_at_eq [OF assms(1)] addBlock_eq same c1 c2 e h)
qed


lemma contents_new_Block_at:
  assumes "well_formed m"
  shows "contents (snd (new_Block_at encode data m)) = contents m"
proof -
  have "\<forall>a\<in>set (chainArray m). a < length (objects m)"
    using assms by (simp add: well_formed_def list_all_iff)
  then have "map (\<lambda>a. (objects m @ [new_Block encode data]) ! a) (chainArray m) =
             map (\<lambda>a. objects m ! a) (chainArray m)"
    by (simp add: nth_append)
  then show ?thesis
    by (simp add: contents_def read_chain_def new_Block_at_def)
qed

lemma create_and_add_by_value:
  assumes "well_formed m"
  shows "contents (snd (create_and_add sha encode ms data m)) =
           snd (addBlock sha ms (contents m) (new_Block encode data))
     \<and> map_promise (\<lambda>x. objects (snd (create_and_add sha encode ms data m)) ! x)
           (fst (create_and_add sha encode ms data m)) =
         fst (addBlock sha ms (contents m) (new_Block encode data))
     \<and> well_formed (snd (create_and_add sha encode ms data m))"
proof -
  let ?a = "length (objects m)"
  let ?m1 = "m\<lparr>objects := objects m @ [new_Block encode data]\<rparr>"
  have run: "create_and_add sha encode ms data m = addBlock_at sha ms ?m1 ?a"
    by (simp add: create_and_add_def new_Block_at_def)
  have bound: "\<forall>a\<in>set (chainArray m). a < length (objects m)"
    using assms by (simp add: well_formed_def list_all_iff)
  have a1: "?a < length (objects ?m1)"
    by simp
  have a2: "?a \<notin> set (chainArray ?m1)"
    using bound by auto
  have c: "contents ?m1 = contents m"
    using contents_new_Block_at [OF assms, of encode data] by (simp add: new_Block_at_def)
  have o: "objects ?m1 ! ?a = new_Block encode data"
    by simp
  note r = addBlock_at_fresh [OF a1 a2, of sha ms]
  have wf: "well_formed (snd (addBlock_at sha ms ?m1 ?a))"
    using bound
    by (auto simp add: addBlock_at_eq [OF a1] well_formed_def list_all_iff less_Suc_eq)
  show ?thesis
    using r wf unfolding run c o by blast
qed









end
